theory Spec2Isabelle
  imports Complex_Main "HOL-Library.Char_ord" "HOL-Library.List_Lexorder" "HOL-Library.Product_Lexorder"
begin

section \<open>Shared data model\<close>

text \<open>
  The Python code computes with floats; the embedding uses exact real arithmetic. The
  theorems say which fills, trades and positions are recorded, with which dates, sides and
  quantities, or evaluate concrete inputs whose numbers floats represent exactly; a sum or
  a product in a statement is the one the code computes, before rounding, and no theorem
  rests on an identity that rounding breaks. A pandas Timestamp of a daily bar is a day
  number.
\<close>

type_synonym date = int
type_synonym sym = string

datatype side = BUY | SELL

text \<open>The dataclass Fill of portfolio.py.\<close>

record Fill =
  date :: date
  symbol :: sym
  side :: side
  qty :: int
  price :: real
  commission :: real
  cash_after :: real
  equity_after :: real

datatype error = ZeroDivisionError | KeyError | IndexError | AttributeError | TypeError

text \<open>
  A call that raises keeps the mutations made before the raise: the outcome of a stateful
  call is the state it reached, tagged with the exception if there was one.
\<close>

datatype 'a outcome = Ok 'a | Raised error 'a

fun state_of :: "'a outcome \<Rightarrow> 'a" where
  "state_of (Ok s) = s"
| "state_of (Raised e s) = s"

section \<open>engine.py\<close>

text \<open>
  A DataFrame of bars is its date index and its Open and Close columns. The columns are
  read only at calendar dates, which lie in every index (the calendar is the intersection
  of the indexes), so a column is a function of the date.
\<close>

record Frame =
  index :: "date list"
  Open :: "date \<Rightarrow> real"
  Close :: "date \<Rightarrow> real"

record Costs =
  commission_rate :: real
  slippage_rate :: real

text \<open>
  The DataFrame a strategy returns: its columns and, per date and column, the signal, with
  \<open>None\<close> where the frame has no value for that date.
\<close>

record Signals =
  columns :: "sym list"
  value_at :: "date \<Rightarrow> sym \<Rightarrow> int option"

text \<open>
  The fields of a Backtester that \<open>run\<close> only reads. The dict \<open>data\<close> is an association
  list in insertion order.
\<close>

record Backtester =
  data :: "(sym \<times> Frame) list"
  strategy :: "(sym \<times> Frame) list \<Rightarrow> Signals"
  initial_capital :: real
  costs :: Costs
  allow_shorts :: bool
  calendar :: "date list"
  per_symbol_budget :: real

text \<open>
  The fields \<open>run\<close> mutates (cash, positions, fills) and its two locals (prev_target,
  equity_curve). The dict positions is created with the value 0 for every key of data and
  is read with the default 0, so it is a function into the integers; prev_target likewise
  holds 0 for every column at the start.
\<close>

record State =
  cash :: real
  positions :: "sym \<Rightarrow> int"
  fills :: "Fill list"
  prev_target :: "sym \<Rightarrow> int"
  equity_curve :: "(date \<times> real) list"

definition index_intersection :: "date list \<Rightarrow> date list \<Rightarrow> date list" where
  "index_intersection xs ys = filter (\<lambda>d. d \<in> set ys) xs"

fun common_index :: "date list option \<Rightarrow> Frame list \<Rightarrow> date list option" where
  "common_index idx [] = idx"
| "common_index idx (df # dfs) =
     common_index (case idx of None \<Rightarrow> Some (index df)
                   | Some i \<Rightarrow> Some (index_intersection i (index df))) dfs"

definition new_state :: "real \<Rightarrow> State" where
  "new_state capital =
     \<lparr>cash = capital, positions = (\<lambda>_. 0), fills = [], prev_target = (\<lambda>_. 0),
      equity_curve = []\<rparr>"

text \<open>\<open>Backtester.__init__\<close>: with no symbol at all, \<open>idx\<close> stays None and sorting it raises.\<close>

definition Backtester_init ::
  "(sym \<times> Frame) list \<Rightarrow> ((sym \<times> Frame) list \<Rightarrow> Signals) \<Rightarrow> real \<Rightarrow> Costs \<Rightarrow> bool
     \<Rightarrow> error + (Backtester \<times> State)" where
  "Backtester_init dat strat capital cs shorts =
     (case common_index None (map snd dat) of
        None \<Rightarrow> Inl AttributeError
      | Some idx \<Rightarrow>
          Inr (\<lparr>data = dat, strategy = strat, initial_capital = capital, costs = cs,
                allow_shorts = shorts, calendar = sort idx,
                per_symbol_budget = (capital * 0.95) / real (max 1 (length dat))\<rparr>,
               new_state capital))"

definition exec_price :: "Backtester \<Rightarrow> side \<Rightarrow> real \<Rightarrow> real" where
  "exec_price bt sd px =
     (if sd = BUY then px * (1 + slippage_rate (costs bt))
      else px * (1 - slippage_rate (costs bt)))"

definition engine_commission :: "Backtester \<Rightarrow> real \<Rightarrow> real" where
  "engine_commission bt notional = \<bar>notional\<bar> * commission_rate (costs bt)"

definition mark_to_market :: "Backtester \<Rightarrow> State \<Rightarrow> date \<Rightarrow> real" where
  "mark_to_market bt st dt =
     cash st + sum_list (map (\<lambda>(s, df). of_int (positions st s) * Close df dt) (data bt))"

text \<open>Python's \<open>a // b\<close> on floats: the floor of the quotient, ZeroDivisionError at 0.\<close>

definition floordiv :: "real \<Rightarrow> real \<Rightarrow> error + real" where
  "floordiv a b = (if b = 0 then Inl ZeroDivisionError else Inr (of_int \<lfloor>a / b\<rfloor>))"

text \<open>
  \<open>int(max(0.0, self.cash // per_share_total))\<close>. The quotient is exact here and rounded
  in the source, as the cost that \<open>book_fill\<close> subtracts is: that the capped quantity
  costs no more than the cash is a fact of exact arithmetic only, and no theorem uses it.
\<close>

definition max_afford :: "real \<Rightarrow> real \<Rightarrow> error + int" where
  "max_afford c per_share_total =
     (case floordiv c per_share_total of Inl e \<Rightarrow> Inl e | Inr q \<Rightarrow> Inr \<lfloor>max 0 q\<rfloor>)"

definition signal_at :: "Backtester \<Rightarrow> date \<Rightarrow> sym \<Rightarrow> int" where
  "signal_at bt dt s = (case value_at (strategy bt (data bt)) dt s of None \<Rightarrow> 0 | Some v \<Rightarrow> v)"

definition target_of :: "Backtester \<Rightarrow> int \<Rightarrow> int" where
  "target_of bt tgt_raw =
     (if \<not> allow_shorts bt then (if tgt_raw = 1 then 1 else 0) else tgt_raw)"

definition book_fill ::
  "Backtester \<Rightarrow> date \<Rightarrow> date \<Rightarrow> sym \<Rightarrow> side \<Rightarrow> int \<Rightarrow> real \<Rightarrow> int \<Rightarrow> State \<Rightarrow> State" where
  "book_fill bt dt next_dt s sd q px new_pos st =
     (let notional = of_int q * px;
          comm = engine_commission bt notional;
          st1 = (if sd = BUY
                 then st\<lparr>cash := cash st - (notional + comm),
                         positions := (positions st)(s := new_pos)\<rparr>
                 else st\<lparr>cash := cash st + (notional - comm),
                         positions := (positions st)(s := new_pos)\<rparr>)
      in st1\<lparr>fills := fills st1 @
                 [\<lparr>date = next_dt, symbol = s, side = sd, qty = q, price = px,
                   commission = comm, cash_after = cash st1,
                   equity_after = mark_to_market bt st1 dt\<rparr>]\<rparr>)"

text \<open>
  The exit leg: lines 119-148 (target flat) and lines 150-174 (flip) of engine.py have the
  same body. When the cap leaves \<open>qty = 0\<close> the source executes \<open>pass\<close> and goes on.
\<close>

definition exit_leg ::
  "Backtester \<Rightarrow> date \<Rightarrow> date \<Rightarrow> sym \<Rightarrow> real \<Rightarrow> int \<Rightarrow> State \<Rightarrow> State outcome" where
  "exit_leg bt dt next_dt s open_px cur_qty st =
     (let sd = (if cur_qty > 0 then SELL else BUY);
          px = exec_price bt sd open_px
      in case (if sd = BUY
               then (case max_afford (cash st) (px * (1 + commission_rate (costs bt))) of
                       Inl e \<Rightarrow> Inl e
                     | Inr m \<Rightarrow> Inr (min \<bar>cur_qty\<bar> m))
               else Inr \<bar>cur_qty\<bar>) of
           Inl e \<Rightarrow> Raised e st
         | Inr q \<Rightarrow>
             Ok (book_fill bt dt next_dt s sd q px
                   (if sd = BUY then cur_qty + q else cur_qty - q) st))"

text \<open>The entry leg, lines 177-212; every path that does not raise records the target.\<close>

definition entry_leg ::
  "Backtester \<Rightarrow> date \<Rightarrow> date \<Rightarrow> sym \<Rightarrow> real \<Rightarrow> int \<Rightarrow> State \<Rightarrow> State outcome" where
  "entry_leg bt dt next_dt s open_px target st =
     (let sd = (if target > 0 then BUY else SELL);
          px = exec_price bt sd open_px
      in case floordiv (per_symbol_budget bt) px of
           Inl e \<Rightarrow> Raised e st
         | Inr b \<Rightarrow>
            (let shares = \<lfloor>b\<rfloor> in
             if shares \<le> 0 then Ok (st\<lparr>prev_target := (prev_target st)(s := target)\<rparr>)
             else
               case (if sd = BUY
                     then (case max_afford (cash st) (px * (1 + commission_rate (costs bt))) of
                             Inl e \<Rightarrow> Inl e
                           | Inr m \<Rightarrow> Inr (min shares m))
                     else Inr shares) of
                 Inl e \<Rightarrow> Raised e st
               | Inr q \<Rightarrow>
                   if sd = BUY \<and> q = 0
                   then Ok (st\<lparr>prev_target := (prev_target st)(s := target)\<rparr>)
                   else
                     (let st2 = book_fill bt dt next_dt s sd q px
                                  (if sd = BUY then q else - q) st
                      in Ok (st2\<lparr>prev_target := (prev_target st2)(s := target)\<rparr>))))"

text \<open>One iteration of the loop over \<open>signals.columns\<close>, lines 98-212.\<close>

definition process_symbol :: "Backtester \<Rightarrow> date \<Rightarrow> date \<Rightarrow> sym \<Rightarrow> State \<Rightarrow> State outcome" where
  "process_symbol bt dt next_dt s st =
     (let target = target_of bt (signal_at bt dt s) in
      if target = prev_target st s then Ok st
      else
        case map_of (data bt) s of
          None \<Rightarrow> Raised KeyError st
        | Some df \<Rightarrow>
           (let open_px = Open df next_dt;
                cur_qty = positions st s
            in case (if cur_qty \<noteq> 0 \<and> target = 0
                     then exit_leg bt dt next_dt s open_px cur_qty st
                     else if cur_qty \<noteq> 0 \<and> target \<noteq> 0 \<and>
                             ((target > 0 \<and> 0 > cur_qty) \<or> (target < 0 \<and> 0 < cur_qty))
                     then exit_leg bt dt next_dt s open_px cur_qty st
                     else Ok st) of
                 Raised e st1 \<Rightarrow> Raised e st1
               | Ok st1 \<Rightarrow>
                   if target \<noteq> 0 \<and> positions st1 s = 0
                   then entry_leg bt dt next_dt s open_px target st1
                   else Ok (st1\<lparr>prev_target := (prev_target st1)(s := target)\<rparr>)))"

fun process_symbols ::
  "Backtester \<Rightarrow> date \<Rightarrow> date \<Rightarrow> sym list \<Rightarrow> State \<Rightarrow> State outcome" where
  "process_symbols bt dt next_dt [] st = Ok st"
| "process_symbols bt dt next_dt (s # ss) st =
     (case process_symbol bt dt next_dt s st of
        Raised e st1 \<Rightarrow> Raised e st1
      | Ok st1 \<Rightarrow> process_symbols bt dt next_dt ss st1)"

text \<open>The body of the loop over the dates, lines 93-215.\<close>

definition process_day :: "Backtester \<Rightarrow> nat \<Rightarrow> State \<Rightarrow> State outcome" where
  "process_day bt i st =
     (let dt = calendar bt ! i; next_dt = calendar bt ! (i + 1) in
      case process_symbols bt dt next_dt (columns (strategy bt (data bt))) st of
        Raised e st1 \<Rightarrow> Raised e st1
      | Ok st1 \<Rightarrow>
          Ok (st1\<lparr>equity_curve := equity_curve st1 @ [(dt, mark_to_market bt st1 dt)]\<rparr>))"

fun run_days :: "Backtester \<Rightarrow> nat list \<Rightarrow> State \<Rightarrow> State outcome" where
  "run_days bt [] st = Ok st"
| "run_days bt (i # is) st =
     (case process_day bt i st of
        Raised e st1 \<Rightarrow> Raised e st1
      | Ok st1 \<Rightarrow> run_days bt is st1)"

text \<open>
  \<open>Backtester.run\<close>: the loop runs over \<open>range(len(dates) - 1)\<close>, where both \<open>dates[i]\<close> and
  \<open>dates[i + 1]\<close> exist; \<open>dates[-1]\<close> raises IndexError on an empty calendar.
\<close>

definition run :: "Backtester \<Rightarrow> State \<Rightarrow> State outcome" where
  "run bt st0 =
     (let st = st0\<lparr>prev_target := (\<lambda>_. 0), equity_curve := []\<rparr>;
          dates = calendar bt
      in case run_days bt [0..<length dates - 1] st of
           Raised e st1 \<Rightarrow> Raised e st1
         | Ok st1 \<Rightarrow>
             (case dates of
                [] \<Rightarrow> Raised IndexError st1
              | _ # _ \<Rightarrow>
                  Ok (st1\<lparr>equity_curve := equity_curve st1 @
                            [(last dates, mark_to_market bt st1 (last dates))]\<rparr>)))"

section \<open>portfolio.py\<close>

text \<open>
  \<open>_apply_fill\<close> mutates a Position object in place, and a dict may hold one object under
  two keys, so the objects live in a store (a list indexed by address) and the dict
  \<open>positions\<close> maps a symbol to the address of its Position, in insertion order.
\<close>

record Position =
  p_symbol :: sym
  p_qty :: int
  avg_cost :: real

record Portfolio =
  pf_cash :: real
  pf_positions :: "(sym \<times> nat) list"
  pf_fills :: "Fill list"

type_synonym store = "Position list"

definition market_value :: "store \<Rightarrow> Portfolio \<Rightarrow> (sym \<rightharpoonup> real) \<Rightarrow> real" where
  "market_value h pf prices =
     sum_list (map (\<lambda>(s, r). of_int (p_qty (h ! r)) * (case prices s of None \<Rightarrow> 0 | Some p \<Rightarrow> p))
                   (pf_positions pf))"

definition equity :: "store \<Rightarrow> Portfolio \<Rightarrow> (sym \<rightharpoonup> real) \<Rightarrow> real" where
  "equity h pf prices = pf_cash pf + market_value h pf prices"

text \<open>
  \<open>self.positions.setdefault(symbol, Position(symbol))\<close>: the address of the object under
  the key, a new object at a fresh address when the key is absent.
\<close>

definition setdefault :: "store \<Rightarrow> Portfolio \<Rightarrow> sym \<Rightarrow> store \<times> Portfolio \<times> nat" where
  "setdefault h pf s =
     (case map_of (pf_positions pf) s of
        Some r \<Rightarrow> (h, pf, r)
      | None \<Rightarrow>
          (h @ [\<lparr>p_symbol = s, p_qty = 0, avg_cost = 0\<rparr>],
           pf\<lparr>pf_positions := pf_positions pf @ [(s, length h)]\<rparr>,
           length h))"

definition apply_fill ::
  "store \<times> Portfolio \<Rightarrow> date \<Rightarrow> sym \<Rightarrow> side \<Rightarrow> int \<Rightarrow> real \<Rightarrow> real \<Rightarrow> (sym \<rightharpoonup> real)
     \<Rightarrow> store \<times> Portfolio" where
  "apply_fill hp dt s sd q px comm prices_now =
     (case setdefault (fst hp) (snd hp) s of
        (h1, pf1, r) \<Rightarrow>
          (let pos = h1 ! r;
               notional = of_int q * px;
               (c2, pos2) =
                  (if sd = BUY
                   then (let new_qty = p_qty pos + q
                         in (pf_cash pf1 - (notional + comm),
                             pos\<lparr>avg_cost := (if new_qty \<noteq> 0
                                                then (avg_cost pos * of_int (p_qty pos) + notional)
                                                       / of_int new_qty
                                                else 0),
                                 p_qty := new_qty\<rparr>))
                   else (let pos1 = pos\<lparr>p_qty := p_qty pos - q\<rparr>
                         in (pf_cash pf1 + (notional - comm),
                             if p_qty pos1 = 0 then pos1\<lparr>avg_cost := 0\<rparr> else pos1)));
               h2 = h1[r := pos2];
               pf2 = pf1\<lparr>pf_cash := c2\<rparr>
           in (h2, pf2\<lparr>pf_fills := pf_fills pf2 @
                          [\<lparr>date = dt, symbol = s, side = sd, qty = q, price = px,
                            commission = comm, cash_after = c2,
                            equity_after = equity h2 pf2 prices_now\<rparr>]\<rparr>)))"

section \<open>metrics.py\<close>

subsection \<open>sharpe\<close>

text \<open>
  A float result is a number or NaN. A daily return is a number, or infinite when a
  non-zero value follows a zero (the 0/0 of two zeros is NaN and \<open>dropna\<close> removes it,
  as it removes the first row).
\<close>

datatype fl = Num real | NaN

datatype ret = Fin real | Inf

fun pct_change_dropna :: "real list \<Rightarrow> ret list" where
  "pct_change_dropna (a # b # xs) =
     (if a = 0 then (if b = 0 then [] else [Inf]) else [Fin (b / a - 1)])
       @ pct_change_dropna (b # xs)"
| "pct_change_dropna xs = []"

fun finite_rets :: "ret list \<Rightarrow> real list option" where
  "finite_rets [] = Some []"
| "finite_rets (Inf # rs) = None"
| "finite_rets (Fin x # rs) = (case finite_rets rs of None \<Rightarrow> None | Some xs \<Rightarrow> Some (x # xs))"

definition mean :: "real list \<Rightarrow> real" where
  "mean xs = sum_list xs / real (length xs)"

text \<open>\<open>Series.std(ddof=1)\<close>: NaN for a single value, where the divisor is 0.\<close>

definition std_ddof1 :: "real list \<Rightarrow> fl" where
  "std_ddof1 xs =
     (if length xs < 2 then NaN
      else Num (sqrt (sum_list (map (\<lambda>x. (x - mean xs)\<^sup>2) xs) / real (length xs - 1))))"

definition TRADING_DAYS :: real where
  "TRADING_DAYS = 252"

text \<open>
  With an infinite return the mean is infinite or NaN and the standard deviation is NaN;
  a NaN standard deviation is not equal to 0 and makes the quotient NaN. For two or more
  finite returns the mean and the deviation are exact here and rounded in the source,
  where the comparison \<open>sd == 0\<close> can fail on equal returns; the theorem on \<open>sharpe\<close>
  does not reach that branch.
\<close>

definition sharpe :: "real list \<Rightarrow> real \<Rightarrow> fl" where
  "sharpe equity_series rf =
     (let rets = pct_change_dropna equity_series in
      if length rets = 0 then Num 0
      else case finite_rets rets of
             None \<Rightarrow> NaN
           | Some rs \<Rightarrow>
               (let excess = map (\<lambda>r. r - rf / TRADING_DAYS) rs;
                    mu = mean excess
                in case std_ddof1 excess of
                     NaN \<Rightarrow> NaN
                   | Num sd \<Rightarrow> if sd = 0 then Num 0 else Num ((mu / sd) * sqrt TRADING_DAYS)))"

subsection \<open>round_trip_trades\<close>

datatype trade_side = LONG | SHORT

record Trade =
  t_symbol :: sym
  entry_date :: date
  exit_date :: date
  t_side :: trade_side
  t_qty :: int
  entry_amount :: real
  exit_amount :: real
  pnl :: real
  duration_days :: int

text \<open>A row of the DataFrame built from the fills: the six fields the function reads.\<close>

record Row =
  r_date :: date
  r_symbol :: sym
  r_side :: side
  r_qty :: int
  r_price :: real
  r_commission :: real

definition row_of :: "Fill \<Rightarrow> Row" where
  "row_of f = \<lparr>r_date = date f, r_symbol = symbol f, r_side = side f, r_qty = qty f,
               r_price = price f, r_commission = commission f\<rparr>"

text \<open>
  The per-symbol dict \<open>s\<close>; the key \<open>qty_total\<close> is read with the default 0, so an absent
  key is the value 0.
\<close>

record SymState =
  pos :: int
  entry_side :: "trade_side option"
  s_entry_date :: "date option"
  entry_amt :: real
  exit_amt :: real
  qty_total :: int

definition fresh_state :: SymState where
  "fresh_state = \<lparr>pos = 0, entry_side = None, s_entry_date = None, entry_amt = 0,
                  exit_amt = 0, qty_total = 0\<rparr>"

text \<open>\<open>close_trade\<close>; subtracting a None entry date from the exit date would raise TypeError.\<close>

definition close_trade ::
  "sym \<Rightarrow> date \<Rightarrow> SymState \<times> Trade list \<Rightarrow> error + SymState \<times> Trade list" where
  "close_trade sm xd st =
     (case st of (s, trades) \<Rightarrow>
        (case entry_side s of
           None \<Rightarrow> Inr (s, trades)
         | Some side_ \<Rightarrow>
             if pos s \<noteq> 0 then Inr (s, trades)
             else
               (case s_entry_date s of
                  None \<Rightarrow> Inl TypeError
                | Some ed \<Rightarrow>
                    (let p = (if side_ = LONG then exit_amt s - entry_amt s
                              else entry_amt s - exit_amt s);
                         duration = max 1 (xd - ed)
                     in Inr (s\<lparr>entry_side := None, s_entry_date := None, entry_amt := 0,
                               exit_amt := 0, qty_total := 0\<rparr>,
                             trades @
                               [\<lparr>t_symbol = sm, entry_date = ed, exit_date = xd, t_side = side_,
                                 t_qty = qty_total s, entry_amount = entry_amt s,
                                 exit_amount = exit_amt s, pnl = p,
                                 duration_days = duration\<rparr>])))))"

definition add_long_entry :: "date \<Rightarrow> real \<Rightarrow> real \<Rightarrow> int \<Rightarrow> SymState \<Rightarrow> SymState" where
  "add_long_entry dt px per_share_comm q s =
     s\<lparr>entry_side := (case entry_side s of None \<Rightarrow> Some LONG | Some e \<Rightarrow> Some e),
       s_entry_date := (case s_entry_date s of None \<Rightarrow> Some dt | Some d \<Rightarrow> Some d),
       entry_amt := entry_amt s + of_int q * (px + per_share_comm),
       qty_total := qty_total s + q\<rparr>"

definition add_long_exit :: "real \<Rightarrow> real \<Rightarrow> int \<Rightarrow> SymState \<Rightarrow> SymState" where
  "add_long_exit px per_share_comm q s =
     s\<lparr>exit_amt := exit_amt s + of_int q * (px - per_share_comm)\<rparr>"

definition add_short_entry :: "date \<Rightarrow> real \<Rightarrow> real \<Rightarrow> int \<Rightarrow> SymState \<Rightarrow> SymState" where
  "add_short_entry dt px per_share_comm q s =
     s\<lparr>entry_side := (case entry_side s of None \<Rightarrow> Some SHORT | Some e \<Rightarrow> Some e),
       s_entry_date := (case s_entry_date s of None \<Rightarrow> Some dt | Some d \<Rightarrow> Some d),
       entry_amt := entry_amt s + of_int q * (px - per_share_comm),
       qty_total := qty_total s + q\<rparr>"

definition add_short_exit :: "real \<Rightarrow> real \<Rightarrow> int \<Rightarrow> SymState \<Rightarrow> SymState" where
  "add_short_exit px per_share_comm q s =
     s\<lparr>exit_amt := exit_amt s + of_int q * (px + per_share_comm)\<rparr>"

text \<open>
  A BUY against a short position, lines 145-156: cover what the position allows, close
  the trade if the position reaches zero, and enter long with the remainder.
\<close>

definition cover_short ::
  "Row \<Rightarrow> real \<Rightarrow> SymState \<times> Trade list \<Rightarrow> error + SymState \<times> Trade list" where
  "cover_short r per_share_comm st =
     (case st of (s, trades) \<Rightarrow>
      (let sm = r_symbol r; dt = r_date r; q = r_qty r; px = r_price r;
           cover = min q (- pos s)
       in case (if cover > 0
                then (let s1 = add_short_exit px per_share_comm cover s;
                          s2 = s1\<lparr>pos := pos s1 + cover\<rparr>
                      in if pos s2 = 0 then close_trade sm dt (s2, trades)
                         else Inr (s2, trades))
                else Inr (s, trades)) of
            Inl e \<Rightarrow> Inl e
          | Inr (s3, trades3) \<Rightarrow>
              (let rem = q - cover
               in if rem > 0
                  then (let s4 = add_long_entry dt px per_share_comm rem s3
                        in Inr (s4\<lparr>pos := pos s4 + rem\<rparr>, trades3))
                  else Inr (s3, trades3))))"

text \<open>A SELL against a long position, lines 164-175, the mirror image.\<close>

definition exit_long ::
  "Row \<Rightarrow> real \<Rightarrow> SymState \<times> Trade list \<Rightarrow> error + SymState \<times> Trade list" where
  "exit_long r per_share_comm st =
     (case st of (s, trades) \<Rightarrow>
      (let sm = r_symbol r; dt = r_date r; q = r_qty r; px = r_price r;
           exitq = min q (pos s)
       in case (if exitq > 0
                then (let s1 = add_long_exit px per_share_comm exitq s;
                          s2 = s1\<lparr>pos := pos s1 - exitq\<rparr>
                      in if pos s2 = 0 then close_trade sm dt (s2, trades)
                         else Inr (s2, trades))
                else Inr (s, trades)) of
            Inl e \<Rightarrow> Inl e
          | Inr (s3, trades3) \<Rightarrow>
              (let rem = q - exitq
               in if rem > 0
                  then (let s4 = add_short_entry dt px per_share_comm rem s3
                        in Inr (s4\<lparr>pos := pos s4 - rem\<rparr>, trades3))
                  else Inr (s3, trades3))))"

text \<open>
  The body of the loop over the rows for one row, on the symbol's dict \<open>s\<close> and the list
  \<open>trades\<close>, lines 83-176.
\<close>

definition row_step :: "Row \<Rightarrow> SymState \<times> Trade list \<Rightarrow> error + SymState \<times> Trade list" where
  "row_step r st =
     (case st of (s, trades) \<Rightarrow>
      (let dt = r_date r; q = r_qty r; px = r_price r;
           per_share_comm = (if q > 0 then r_commission r / of_int q else 0)
       in if r_side r = BUY
          then
            (if pos s \<ge> 0
             then (let s1 = add_long_entry dt px per_share_comm q s
                   in Inr (s1\<lparr>pos := pos s1 + q\<rparr>, trades))
             else cover_short r per_share_comm (s, trades))
          else
            (if pos s \<le> 0
             then (let s1 = add_short_entry dt px per_share_comm q s
                   in Inr (s1\<lparr>pos := pos s1 - q\<rparr>, trades))
             else exit_long r per_share_comm (s, trades))))"

text \<open>The loop over the sorted rows, with the dict \<open>state\<close> from symbol to its dict.\<close>

fun replay_rows ::
  "Row list \<Rightarrow> (sym \<rightharpoonup> SymState) \<times> Trade list \<Rightarrow> error + (sym \<rightharpoonup> SymState) \<times> Trade list" where
  "replay_rows [] st = Inr st"
| "replay_rows (r # rs) (state, trades) =
     (case row_step r (case state (r_symbol r) of None \<Rightarrow> fresh_state | Some s \<Rightarrow> s, trades) of
        Inl e \<Rightarrow> Inl e
      | Inr (s, trades1) \<Rightarrow> replay_rows rs (state(r_symbol r \<mapsto> s), trades1))"

text \<open>\<open>sort_values(["symbol", "date"])\<close> is a stable sort on the pair of keys.\<close>

definition sorted_rows :: "Fill list \<Rightarrow> Row list" where
  "sorted_rows fs = sort_key (\<lambda>r. (r_symbol r, r_date r)) (map row_of fs)"

definition reconstruct :: "Fill list \<Rightarrow> error + (sym \<rightharpoonup> SymState) \<times> Trade list" where
  "reconstruct fs = replay_rows (sorted_rows fs) (Map.empty, [])"

definition round_trip_trades :: "Fill list \<Rightarrow> error + Trade list" where
  "round_trip_trades fs =
     (if fs = [] then Inr []
      else case reconstruct fs of Inl e \<Rightarrow> Inl e | Inr (state, trades) \<Rightarrow> Inr trades)"

section \<open>Example inputs\<close>

text \<open>Two symbols whose date indexes have no date in common.\<close>

definition ex_frame_early :: Frame where
  "ex_frame_early = \<lparr>index = [0, 1], Open = (\<lambda>d. 10), Close = (\<lambda>d. 10)\<rparr>"

definition ex_frame_late :: Frame where
  "ex_frame_late = \<lparr>index = [2, 3], Open = (\<lambda>d. 10), Close = (\<lambda>d. 10)\<rparr>"

definition ex_always_long :: "(sym \<times> Frame) list \<Rightarrow> Signals" where
  "ex_always_long dat = \<lparr>columns = map fst dat, value_at = (\<lambda>d s. Some 1)\<rparr>"

definition ex_no_costs :: Costs where
  "ex_no_costs = \<lparr>commission_rate = 0, slippage_rate = 0\<rparr>"

definition ex_disjoint_bt :: Backtester where
  "ex_disjoint_bt =
     \<lparr>data = [(''A'', ex_frame_early), (''B'', ex_frame_late)], strategy = ex_always_long,
      initial_capital = 100, costs = ex_no_costs, allow_shorts = False, calendar = [],
      per_symbol_budget = 95 / 2\<rparr>"

text \<open>
  One symbol over three dates, shorts allowed: the signal goes short on the first date
  and flat on the second; the open on the third date is far above what the cash can pay.
\<close>

definition ex_frame_spike :: Frame where
  "ex_frame_spike =
     \<lparr>index = [0, 1, 2], Open = (\<lambda>d. if d = 1 then 10 else 1000), Close = (\<lambda>d. 10)\<rparr>"

definition ex_short_then_flat :: "(sym \<times> Frame) list \<Rightarrow> Signals" where
  "ex_short_then_flat dat =
     \<lparr>columns = map fst dat, value_at = (\<lambda>d s. if d = 0 then Some (- 1) else Some 0)\<rparr>"

definition ex_cover_bt :: Backtester where
  "ex_cover_bt =
     \<lparr>data = [(''A'', ex_frame_spike)], strategy = ex_short_then_flat,
      initial_capital = 100, costs = ex_no_costs, allow_shorts = True, calendar = [0, 1, 2],
      per_symbol_budget = 95\<rparr>"

text \<open>
  One symbol over three dates, long only: the signal goes long on the first date and flat
  on the second; the bar of the third date carries a negative open.
\<close>

definition ex_frame_negative :: Frame where
  "ex_frame_negative =
     \<lparr>index = [0, 1, 2], Open = (\<lambda>d. if d = 1 then 10 else - 100), Close = (\<lambda>d. 10)\<rparr>"

definition ex_long_then_flat :: "(sym \<times> Frame) list \<Rightarrow> Signals" where
  "ex_long_then_flat dat =
     \<lparr>columns = map fst dat, value_at = (\<lambda>d s. if d = 0 then Some 1 else Some 0)\<rparr>"

definition ex_negative_bt :: Backtester where
  "ex_negative_bt =
     \<lparr>data = [(''A'', ex_frame_negative)], strategy = ex_long_then_flat,
      initial_capital = 100, costs = ex_no_costs, allow_shorts = False, calendar = [0, 1, 2],
      per_symbol_budget = 95\<rparr>"

section \<open>Predicates used in the proofs\<close>

text \<open>
  The processed target of a symbol on the \<open>i\<close>-th calendar date, and the target recorded
  before that date is processed: 0 before the first date, the processed target of the
  preceding date afterwards.
\<close>

definition day_target :: "Backtester \<Rightarrow> nat \<Rightarrow> sym \<Rightarrow> int" where
  "day_target bt i s = target_of bt (signal_at bt (calendar bt ! i) s)"

definition recorded_target :: "Backtester \<Rightarrow> nat \<Rightarrow> sym \<Rightarrow> int" where
  "recorded_target bt i s = (if i = 0 then 0 else day_target bt (i - 1) s)"

text \<open>
  A fill is timely when it is dated on the calendar date that follows a date on which
  the processed target of its symbol changed, and priced at that following date's Open
  with the slippage of its side.
\<close>

definition timely :: "Backtester \<Rightarrow> Fill \<Rightarrow> bool" where
  "timely bt f \<longleftrightarrow>
     (\<exists>i df. i + 1 < length (calendar bt) \<and> date f = calendar bt ! (i + 1) \<and>
        day_target bt i (symbol f) \<noteq> recorded_target bt i (symbol f) \<and>
        map_of (data bt) (symbol f) = Some df \<and>
        price f = exec_price bt (side f) (Open df (calendar bt ! (i + 1))))"

text \<open>The outcome of the first \<open>k\<close> iterations of the loop over the dates in \<open>run\<close>.\<close>

definition run_prefix :: "Backtester \<Rightarrow> State \<Rightarrow> nat \<Rightarrow> State outcome" where
  "run_prefix bt st0 k =
     run_days bt [0..<k] (st0\<lparr>prev_target := (\<lambda>_. 0), equity_curve := []\<rparr>)"

text \<open>The fill list of the second state is that of the first followed by fills that satisfy \<open>G\<close>.\<close>

definition extends_with :: "(Fill \<Rightarrow> bool) \<Rightarrow> State \<Rightarrow> State \<Rightarrow> bool" where
  "extends_with G st st' \<longleftrightarrow> (\<exists>new. fills st' = fills st @ new \<and> (\<forall>f\<in>set new. G f))"

text \<open>One symbol over four dates, long only, every open at 10 and the signal always long.\<close>

definition ex_frame_flat :: Frame where
  "ex_frame_flat = \<lparr>index = [0, 1, 2, 3], Open = (\<lambda>d. 10), Close = (\<lambda>d. 10)\<rparr>"

definition ex_steady_bt :: Backtester where
  "ex_steady_bt =
     \<lparr>data = [(''A'', ex_frame_flat)], strategy = ex_always_long,
      initial_capital = 100, costs = ex_no_costs, allow_shorts = False,
      calendar = [0, 1, 2, 3], per_symbol_budget = 95\<rparr>"

text \<open>
  The position in a symbol that a list of fills adds up to: bought quantities minus sold
  quantities.
\<close>

definition held :: "Fill list \<Rightarrow> sym \<Rightarrow> int" where
  "held fs s =
     sum_list (map (\<lambda>f. if symbol f = s then (if side f = BUY then qty f else - qty f) else 0) fs)"

text \<open>
  A fill list is long-only when no symbol is ever held short after any number of its fills
  and every SELL sells exactly the shares held in its symbol just before it.
\<close>

definition ledger_long_only :: "Fill list \<Rightarrow> bool" where
  "ledger_long_only fs \<longleftrightarrow>
     (\<forall>k\<le>length fs. \<forall>s. 0 \<le> held (take k fs) s) \<and>
     (\<forall>k<length fs. side (fs ! k) = SELL \<longrightarrow>
        0 < qty (fs ! k) \<and> qty (fs ! k) = held (take k fs) (symbol (fs ! k)))"

definition long_only_state :: "State \<Rightarrow> bool" where
  "long_only_state st \<longleftrightarrow> (\<forall>s. positions st s = held (fills st) s) \<and> ledger_long_only (fills st)"

text \<open>The same four dates, long only, with the signal long on the first date only.\<close>

definition ex_round_trip_bt :: Backtester where
  "ex_round_trip_bt =
     \<lparr>data = [(''A'', ex_frame_flat)], strategy = ex_long_then_flat,
      initial_capital = 100, costs = ex_no_costs, allow_shorts = False,
      calendar = [0, 1, 2, 3], per_symbol_budget = 95\<rparr>"

text \<open>
  The running position of a symbol after a list of rows: bought minus sold quantities.
\<close>

definition running_position :: "Row list \<Rightarrow> sym \<Rightarrow> int" where
  "running_position rs s =
     sum_list (map (\<lambda>r. if r_symbol r = s then (if r_side r = BUY then r_qty r else - r_qty r)
                          else 0) rs)"


text \<open>The entry side and the entry date of a symbol's dict are set together.\<close>

definition coherent :: "SymState \<Rightarrow> bool" where
  "coherent x \<longleftrightarrow> (entry_side x = None \<longleftrightarrow> s_entry_date x = None)"





text \<open>
  The Position stored under a symbol, and the portfolios in which every key holds a
  Position object of its own, the one created for that symbol.
\<close>

definition position_of :: "store \<Rightarrow> Portfolio \<Rightarrow> sym \<Rightarrow> Position option" where
  "position_of h pf s = map_option (\<lambda>r. h ! r) (map_of (pf_positions pf) s)"

definition own_positions :: "store \<Rightarrow> Portfolio \<Rightarrow> bool" where
  "own_positions h pf \<longleftrightarrow>
     (\<forall>k r. map_of (pf_positions pf) k = Some r \<longrightarrow> r < length h \<and> p_symbol (h ! r) = k)"

text \<open>A portfolio holding 5 shares of A and 7 of B, each in its own Position.\<close>

definition ex_store :: store where
  "ex_store = [\<lparr>p_symbol = ''A'', p_qty = 5, avg_cost = 10\<rparr>,
               \<lparr>p_symbol = ''B'', p_qty = 7, avg_cost = 20\<rparr>]"

definition ex_portfolio :: Portfolio where
  "ex_portfolio = \<lparr>pf_cash = 1000, pf_positions = [(''A'', 0), (''B'', 1)], pf_fills = []\<rparr>"

section \<open>The calendar\<close>

lemma common_index_Some:
  "\<exists>j. common_index (Some i) dfs = Some j \<and>
       set j = set i \<inter> (\<Inter>df\<in>set dfs. set (index df))"
proof (induction dfs arbitrary: i)
  case Nil
  then show ?case by simp
next
  case (Cons df dfs)
  obtain j where j: "common_index (Some (index_intersection i (index df))) dfs = Some j"
     "set j = set (index_intersection i (index df)) \<inter> (\<Inter>df\<in>set dfs. set (index df))"
    using Cons.IH by blast
  show ?case using j by (auto simp: index_intersection_def)
qed

lemma run_empty_calendar:
  "calendar bt = [] \<Longrightarrow>
   run bt st = Raised IndexError (st\<lparr>prev_target := (\<lambda>_. 0), equity_curve := []\<rparr>)"
  by (simp add: run_def)

text \<open>
  C10. When the date indexes of the symbols have no date in common, the constructor
  succeeds with an empty calendar and \<open>run\<close> raises IndexError at \<open>dates[-1]\<close>, having
  recorded nothing: it returns no equity series.
\<close>

theorem empty_calendar_raises:
  assumes "Backtester_init dat strat capital cs shorts = Inr (bt, st)"
    and "(\<Inter>df\<in>set (map snd dat). set (index df)) = {}"
  shows "calendar bt = [] \<and> run bt st = Raised IndexError st"
proof -
  obtain df dfs where dat: "map snd dat = df # dfs"
    using assms(1) by (cases "map snd dat") (auto simp: Backtester_init_def)
  obtain j where j: "common_index (Some (index df)) dfs = Some j"
    "set j = set (index df) \<inter> (\<Inter>df\<in>set dfs. set (index df))"
    using common_index_Some by blast
  have "set j = {}" using j(2) assms(2) dat by auto
  then have cal: "calendar bt = []" and st: "st = new_state capital"
    using assms(1) dat j(1) by (auto simp: Backtester_init_def)
  show ?thesis using cal st by (simp add: run_empty_calendar new_state_def)
qed

theorem empty_calendar_raises_witness:
  "Backtester_init [(''A'', ex_frame_early), (''B'', ex_frame_late)] ex_always_long 100
      ex_no_costs False = Inr (ex_disjoint_bt, new_state 100)
   \<and> (\<Inter>df\<in>set (map snd [(''A'', ex_frame_early), (''B'', ex_frame_late)]). set (index df)) = {}
   \<and> run ex_disjoint_bt (new_state 100) = Raised IndexError (new_state 100)"
proof -
  have i: "Backtester_init [(''A'', ex_frame_early), (''B'', ex_frame_late)] ex_always_long 100
      ex_no_costs False = Inr (ex_disjoint_bt, new_state 100)"
    by (simp add: Backtester_init_def ex_frame_early_def ex_frame_late_def
          index_intersection_def ex_disjoint_bt_def)
  have e: "(\<Inter>df\<in>set (map snd [(''A'', ex_frame_early), (''B'', ex_frame_late)]).
              set (index df)) = {}"
    by (simp add: ex_frame_early_def ex_frame_late_def)
  show ?thesis using empty_calendar_raises [OF i e] i e by simp
qed

section \<open>The two legs of an order\<close>

lemma book_fill_simps [simp]:
  "fills (book_fill bt dt nd s sd q px np st) =
     fills st @ [\<lparr>date = nd, symbol = s, side = sd, qty = q, price = px,
                  commission = engine_commission bt (of_int q * px),
                  cash_after = cash (book_fill bt dt nd s sd q px np st),
                  equity_after = mark_to_market bt
                     (st\<lparr>cash := cash (book_fill bt dt nd s sd q px np st),
                         positions := (positions st)(s := np)\<rparr>) dt\<rparr>]"
  "cash (book_fill bt dt nd s sd q px np st) =
     (if sd = BUY then cash st - (of_int q * px + engine_commission bt (of_int q * px))
      else cash st + (of_int q * px - engine_commission bt (of_int q * px)))"
  "positions (book_fill bt dt nd s sd q px np st) = (positions st)(s := np)"
  "prev_target (book_fill bt dt nd s sd q px np st) = prev_target st"
  "equity_curve (book_fill bt dt nd s sd q px np st) = equity_curve st"
  by (simp_all add: book_fill_def Let_def)

lemma max_afford_Inr:
  "max_afford c p = Inr m \<longleftrightarrow> p \<noteq> 0 \<and> m = max 0 \<lfloor>c / p\<rfloor>"
  by (auto simp: max_afford_def floordiv_def max_def)

lemma max_afford_Inl:
  "max_afford c p = Inl e \<longleftrightarrow> p = 0 \<and> e = ZeroDivisionError"
  by (auto simp: max_afford_def floordiv_def)

lemma floordiv_Inr: "floordiv a b = Inr q \<longleftrightarrow> b \<noteq> 0 \<and> q = of_int \<lfloor>a / b\<rfloor>"
  by (auto simp: floordiv_def)

lemma exit_leg_cases [case_names Raised Sell Buy]:
  obtains (Raised) e where "exit_leg bt dt nd s open_px cur st = Raised e st"
  | (Sell) "cur > 0"
      "exit_leg bt dt nd s open_px cur st =
         Ok (book_fill bt dt nd s SELL cur (exec_price bt SELL open_px) 0 st)"
  | (Buy) q where "cur \<le> 0"
      "exec_price bt BUY open_px * (1 + commission_rate (costs bt)) \<noteq> 0"
      "q = min \<bar>cur\<bar> (max 0 \<lfloor>cash st / (exec_price bt BUY open_px * (1 + commission_rate (costs bt)))\<rfloor>)"
      "exit_leg bt dt nd s open_px cur st =
         Ok (book_fill bt dt nd s BUY q (exec_price bt BUY open_px) (cur + q) st)"
proof (cases "cur > 0")
  case True
  then show ?thesis using Sell by (simp add: exit_leg_def)
next
  case False
  show ?thesis
  proof (cases "max_afford (cash st) (exec_price bt BUY open_px * (1 + commission_rate (costs bt)))")
    case (Inl e)
    then show ?thesis using False Raised by (simp add: exit_leg_def)
  next
    case (Inr m)
    have m: "exec_price bt BUY open_px * (1 + commission_rate (costs bt)) \<noteq> 0"
      "m = max 0 \<lfloor>cash st / (exec_price bt BUY open_px * (1 + commission_rate (costs bt)))\<rfloor>"
      using Inr unfolding max_afford_Inr by blast+
    have "exit_leg bt dt nd s open_px cur st =
         Ok (book_fill bt dt nd s BUY (min \<bar>cur\<bar> m) (exec_price bt BUY open_px)
               (cur + min \<bar>cur\<bar> m) st)"
      using False Inr by (simp add: exit_leg_def Let_def)
    then show ?thesis using False m Buy [of "min \<bar>cur\<bar> m"] by fastforce
  qed
qed

lemma entry_leg_cases [case_names Raised Skip Buy Sell]:
  obtains (Raised) e where "entry_leg bt dt nd s open_px target st = Raised e st"
  | (Skip) "entry_leg bt dt nd s open_px target st =
              Ok (st\<lparr>prev_target := (prev_target st)(s := target)\<rparr>)"
  | (Buy) q where "target > 0" "exec_price bt BUY open_px \<noteq> 0"
      "exec_price bt BUY open_px * (1 + commission_rate (costs bt)) \<noteq> 0"
      "q = min \<lfloor>per_symbol_budget bt / exec_price bt BUY open_px\<rfloor>
             (max 0 \<lfloor>cash st / (exec_price bt BUY open_px * (1 + commission_rate (costs bt)))\<rfloor>)"
      "q > 0"
      "entry_leg bt dt nd s open_px target st =
         Ok ((book_fill bt dt nd s BUY q (exec_price bt BUY open_px) q st)
               \<lparr>prev_target := (prev_target st)(s := target)\<rparr>)"
  | (Sell) q where "target \<le> 0" "exec_price bt SELL open_px \<noteq> 0"
      "q = \<lfloor>per_symbol_budget bt / exec_price bt SELL open_px\<rfloor>" "q > 0"
      "entry_leg bt dt nd s open_px target st =
         Ok ((book_fill bt dt nd s SELL q (exec_price bt SELL open_px) (- q) st)
               \<lparr>prev_target := (prev_target st)(s := target)\<rparr>)"
proof (cases "target > 0")
  case True
  let ?px = "exec_price bt BUY open_px"
  show ?thesis
  proof (cases "?px = 0")
    case True
    with \<open>target > 0\<close> show ?thesis using Raised by (simp add: entry_leg_def floordiv_def)
  next
    case px: False
    show ?thesis
    proof (cases "\<lfloor>per_symbol_budget bt / ?px\<rfloor> \<le> 0")
      case True
      with px \<open>target > 0\<close> show ?thesis using Skip by (simp add: entry_leg_def floordiv_def)
    next
      case sh: False
      show ?thesis
      proof (cases "max_afford (cash st) (?px * (1 + commission_rate (costs bt)))")
        case (Inl e)
        with px sh \<open>target > 0\<close> show ?thesis using Raised
          by (simp add: entry_leg_def floordiv_def)
      next
        case (Inr m)
        then have m: "?px * (1 + commission_rate (costs bt)) \<noteq> 0"
          "m = max 0 \<lfloor>cash st / (?px * (1 + commission_rate (costs bt)))\<rfloor>"
          unfolding max_afford_Inr by blast+
        show ?thesis
        proof (cases "min \<lfloor>per_symbol_budget bt / ?px\<rfloor> m = 0")
          case True
          with px sh Inr \<open>target > 0\<close> show ?thesis using Skip
            by (simp add: entry_leg_def floordiv_def)
        next
          case False
          then have "min \<lfloor>per_symbol_budget bt / ?px\<rfloor> m > 0" using sh m(2) by linarith
          then have q: "min \<lfloor>per_symbol_budget bt / ?px\<rfloor> m > 0" .
          have "entry_leg bt dt nd s open_px target st =
             Ok ((book_fill bt dt nd s BUY (min \<lfloor>per_symbol_budget bt / ?px\<rfloor> m) ?px
                    (min \<lfloor>per_symbol_budget bt / ?px\<rfloor> m) st)
                  \<lparr>prev_target := (prev_target st)(s := target)\<rparr>)"
            using False px sh Inr \<open>target > 0\<close>
            by (simp add: entry_leg_def floordiv_def Let_def)
          then show ?thesis
            using Buy [of "min \<lfloor>per_symbol_budget bt / ?px\<rfloor> m"] q px m \<open>target > 0\<close>
            by fastforce
        qed
      qed
    qed
  qed
next
  case False
  let ?px = "exec_price bt SELL open_px"
  show ?thesis
  proof (cases "?px = 0")
    case True
    with False show ?thesis using Raised by (simp add: entry_leg_def floordiv_def)
  next
    case px: False
    show ?thesis
    proof (cases "\<lfloor>per_symbol_budget bt / ?px\<rfloor> \<le> 0")
      case True
      with px False show ?thesis using Skip by (simp add: entry_leg_def floordiv_def)
    next
      case sh: False
      have "entry_leg bt dt nd s open_px target st =
         Ok ((book_fill bt dt nd s SELL \<lfloor>per_symbol_budget bt / ?px\<rfloor> ?px
               (- \<lfloor>per_symbol_budget bt / ?px\<rfloor>) st)
               \<lparr>prev_target := (prev_target st)(s := target)\<rparr>)"
        using px False sh by (simp add: entry_leg_def floordiv_def Let_def)
      then show ?thesis using Sell [of "\<lfloor>per_symbol_budget bt / ?px\<rfloor>"] px False sh
        by fastforce
    qed
  qed
qed

section \<open>Invariants of a run\<close>

lemma process_symbol_invariant:
  assumes "P st"
    and x: "\<And>df c. map_of (data bt) s = Some df \<Longrightarrow>
              P (state_of (exit_leg bt dt nd s (Open df nd) c st))"
    and e: "\<And>df t st1. map_of (data bt) s = Some df \<Longrightarrow> P st1 \<Longrightarrow>
              P (state_of (entry_leg bt dt nd s (Open df nd) t st1))"
    and p: "\<And>st1 t. P st1 \<Longrightarrow> P (st1\<lparr>prev_target := (prev_target st1)(s := t)\<rparr>)"
  shows "P (state_of (process_symbol bt dt nd s st))"
proof (cases "map_of (data bt) s")
  case None
  then show ?thesis using assms(1) by (simp add: process_symbol_def Let_def)
next
  case (Some df)
  define tg where "tg = target_of bt (signal_at bt dt s)"
  define r where "r = (if positions st s \<noteq> 0 \<and> tg = 0
                     then exit_leg bt dt nd s (Open df nd) (positions st s) st
                     else if positions st s \<noteq> 0 \<and> tg \<noteq> 0 \<and>
                             ((tg > 0 \<and> 0 > positions st s) \<or> (tg < 0 \<and> 0 < positions st s))
                     then exit_leg bt dt nd s (Open df nd) (positions st s) st
                     else Ok st)"
  have r: "P (state_of r)" using assms(1) x [OF Some] by (simp add: r_def)
  have ps: "process_symbol bt dt nd s st =
      (if tg = prev_target st s then Ok st
       else case r of Raised e st1 \<Rightarrow> Raised e st1
            | Ok st1 \<Rightarrow> if tg \<noteq> 0 \<and> positions st1 s = 0
                         then entry_leg bt dt nd s (Open df nd) tg st1
                         else Ok (st1\<lparr>prev_target := (prev_target st1)(s := tg)\<rparr>))"
    unfolding process_symbol_def Let_def tg_def r_def Some option.case by (rule refl)
  show ?thesis
  proof (cases r)
    case (Ok st1)
    then have "P st1" using r by simp
    then show ?thesis using ps Ok assms(1) e [OF Some] p by simp
  next
    case (Raised err st1)
    then show ?thesis using ps r assms(1) by simp
  qed
qed

lemma process_symbols_invariant:
  assumes "P st" and "\<And>s st. P st \<Longrightarrow> P (state_of (process_symbol bt dt nd s st))"
  shows "P (state_of (process_symbols bt dt nd ss st))"
  using assms(1)
proof (induction ss arbitrary: st)
  case Nil
  then show ?case by simp
next
  case (Cons s ss)
  have "P (state_of (process_symbol bt dt nd s st))" using assms(2) Cons.prems by blast
  then show ?case using Cons.IH by (cases "process_symbol bt dt nd s st") simp_all
qed

lemma process_day_invariant:
  assumes "P st"
    and "\<And>s st. P st \<Longrightarrow>
           P (state_of (process_symbol bt (calendar bt ! i) (calendar bt ! (i + 1)) s st))"
    and "\<And>st c. P st \<Longrightarrow> P (st\<lparr>equity_curve := c\<rparr>)"
  shows "P (state_of (process_day bt i st))"
proof -
  have "P (state_of (process_symbols bt (calendar bt ! i) (calendar bt ! (i + 1))
              (columns (strategy bt (data bt))) st))"
    using process_symbols_invariant [where P = P, OF assms(1)] assms(2) by blast
  then show ?thesis using assms(3)
    by (cases "process_symbols bt (calendar bt ! i) (calendar bt ! (i + 1))
              (columns (strategy bt (data bt))) st") (simp_all add: process_day_def Let_def)
qed

lemma run_days_invariant:
  assumes "P st" and "\<And>i st. i \<in> set js \<Longrightarrow> P st \<Longrightarrow> P (state_of (process_day bt i st))"
  shows "P (state_of (run_days bt js st))"
  using assms
proof (induction js arbitrary: st)
  case Nil
  then show ?case by simp
next
  case (Cons j js)
  have "P (state_of (process_day bt j st))" using Cons.prems by simp
  then show ?case using Cons.IH Cons.prems(2) by (cases "process_day bt j st") simp_all
qed

lemma run_invariant:
  assumes "P (st\<lparr>prev_target := (\<lambda>_. 0), equity_curve := []\<rparr>)"
    and "\<And>i st. i + 1 < length (calendar bt) \<Longrightarrow> P st \<Longrightarrow> P (state_of (process_day bt i st))"
    and "\<And>st c. P st \<Longrightarrow> P (st\<lparr>equity_curve := c\<rparr>)"
  shows "P (state_of (run bt st))"
proof -
  let ?r = "run_days bt [0..<length (calendar bt) - 1]
              (st\<lparr>prev_target := (\<lambda>_. 0), equity_curve := []\<rparr>)"
  have "P (state_of ?r)"
    using run_days_invariant [where P = P, OF assms(1)] assms(2) by fastforce
  then show ?thesis using assms(3)
    by (cases ?r; cases "calendar bt") (simp_all add: run_def Let_def)
qed

lemmas engine_defs =
  run_def process_day_def process_symbol_def signal_at_def target_of_def exit_leg_def
  entry_leg_def book_fill_def floordiv_def max_afford_def exec_price_def
  engine_commission_def mark_to_market_def new_state_def

text \<open>
  C1. Solvency does not hold of the code. The run below meets every condition of the
  claim: a capital of 100 buys 9 shares at 10 and keeps a cash of 10; the next bar opens
  at -100, the engine sells the 9 shares at that price without looking at its sign, and
  the SELL fill records a cash of -890. Every number of this run is an integer, so the
  floats of the source compute the same values.
\<close>

theorem sell_at_negative_open:
  "Backtester_init [(''A'', ex_frame_negative)] ex_long_then_flat 100 ex_no_costs False
     = Inr (ex_negative_bt, new_state 100)
   \<and> 0 \<le> initial_capital ex_negative_bt
   \<and> 0 \<le> commission_rate (costs ex_negative_bt) \<and> commission_rate (costs ex_negative_bt) \<le> 1
   \<and> 0 \<le> slippage_rate (costs ex_negative_bt) \<and> slippage_rate (costs ex_negative_bt) \<le> 1
   \<and> map (\<lambda>f. (date f, side f, qty f, price f, cash_after f))
        (fills (state_of (run ex_negative_bt (new_state 100))))
     = [(1, BUY, 9, 10, 10), (2, SELL, 9, - 100, - 890)]"
  by (simp add: Backtester_init_def ex_negative_bt_def ex_frame_negative_def
        ex_long_then_flat_def ex_no_costs_def index_intersection_def engine_defs Let_def
        upt_conv_Cons)

text \<open>
  C2. The claim does not hold of the code: after a short of 9 shares entered with a cash
  of 100, a cover at an open of 1000 is capped to 0 shares, and the exit leg still
  appends a BUY fill of quantity 0 (the source's \<open>pass\<close> does not leave the leg). The
  position stays at -9.
\<close>

theorem zero_quantity_cover_fill:
  "Backtester_init [(''A'', ex_frame_spike)] ex_short_then_flat 100 ex_no_costs True
     = Inr (ex_cover_bt, new_state 100)
   \<and> map (\<lambda>f. (date f, symbol f, side f, qty f, cash_after f))
        (fills (state_of (run ex_cover_bt (new_state 100))))
     = [(1, ''A'', SELL, 9, 190), (2, ''A'', BUY, 0, 190)]
   \<and> positions (state_of (run ex_cover_bt (new_state 100))) ''A'' = - 9"
  by (simp add: Backtester_init_def ex_cover_bt_def ex_frame_spike_def ex_short_then_flat_def
        ex_no_costs_def index_intersection_def engine_defs Let_def upt_conv_Cons)

section \<open>The recorded target\<close>

lemma process_symbol_unchanged:
  "target_of bt (signal_at bt dt s) = prev_target st s \<Longrightarrow> process_symbol bt dt nd s st = Ok st"
  by (simp add: process_symbol_def)

lemma process_symbol_unfold:
  assumes "map_of (data bt) s = Some df" "target_of bt (signal_at bt dt s) \<noteq> prev_target st s"
  shows "process_symbol bt dt nd s st =
     (case (if positions st s \<noteq> 0 \<and>
               (target_of bt (signal_at bt dt s) = 0 \<or>
                (target_of bt (signal_at bt dt s) > 0 \<and> 0 > positions st s) \<or>
                (target_of bt (signal_at bt dt s) < 0 \<and> 0 < positions st s))
            then exit_leg bt dt nd s (Open df nd) (positions st s) st
            else Ok st) of
        Raised e st1 \<Rightarrow> Raised e st1
      | Ok st1 \<Rightarrow>
          if target_of bt (signal_at bt dt s) \<noteq> 0 \<and> positions st1 s = 0
          then entry_leg bt dt nd s (Open df nd) (target_of bt (signal_at bt dt s)) st1
          else Ok (st1\<lparr>prev_target := (prev_target st1)(s := target_of bt (signal_at bt dt s))\<rparr>))"
  using assms by (auto simp: process_symbol_def Let_def)

lemma exit_leg_prev:
  "prev_target (state_of (exit_leg bt dt nd s px c st)) = prev_target st"
  by (cases rule: exit_leg_cases [of bt dt nd s px c st]) simp_all

lemma entry_leg_prev:
  "entry_leg bt dt nd s px t st = Ok st' \<Longrightarrow> prev_target st' = (prev_target st)(s := t)"
  by (cases rule: entry_leg_cases [of bt dt nd s px t st]) auto

lemma entry_leg_prev_other:
  "s' \<noteq> s \<Longrightarrow> prev_target (state_of (entry_leg bt dt nd s px t st)) s' = prev_target st s'"
  by (cases rule: entry_leg_cases [of bt dt nd s px t st]) auto

lemma process_symbol_prev:
  assumes "process_symbol bt dt nd s st = Ok st'"
  shows "prev_target st' = (prev_target st)(s := target_of bt (signal_at bt dt s))"
proof (cases "target_of bt (signal_at bt dt s) = prev_target st s")
  case True
  then show ?thesis using assms by (auto simp: process_symbol_unchanged)
next
  case False
  show ?thesis
  proof (cases "map_of (data bt) s")
    case None
    then show ?thesis using assms False by (simp add: process_symbol_def Let_def)
  next
    case (Some df)
    show ?thesis
      using assms exit_leg_prev [of bt dt nd s "Open df nd" "positions st s" st]
      unfolding process_symbol_unfold [OF Some False]
      by (auto split: outcome.splits if_splits dest!: entry_leg_prev)
  qed
qed

lemma process_symbol_prev_other:
  "s' \<noteq> s \<Longrightarrow> prev_target (state_of (process_symbol bt dt nd s st)) s' = prev_target st s'"
  by (rule process_symbol_invariant [where P = "\<lambda>x. prev_target x s' = prev_target st s'"])
     (simp_all add: exit_leg_prev entry_leg_prev_other)

section \<open>No look-ahead\<close>

lemma extends_refl [simp]: "extends_with G st st"
  by (simp add: extends_with_def)

lemma extends_trans:
  "extends_with G st st1 \<Longrightarrow> extends_with G st1 st2 \<Longrightarrow> extends_with G st st2"
  unfolding extends_with_def by fastforce

lemma extends_same_fills:
  "fills st2 = fills st1 \<Longrightarrow> extends_with G st st1 \<Longrightarrow> extends_with G st st2"
  by (simp add: extends_with_def)

lemma extends_book_fill:
  assumes "\<And>f. symbol f = s \<Longrightarrow> date f = nd \<Longrightarrow> side f = sd \<Longrightarrow> qty f = q \<Longrightarrow> price f = px \<Longrightarrow>
             cash_after f = cash (book_fill bt dt nd s sd q px np st) \<Longrightarrow> G f"
  shows "extends_with G st (book_fill bt dt nd s sd q px np st)"
    and "extends_with G st ((book_fill bt dt nd s sd q px np st)\<lparr>prev_target := p\<rparr>)"
  unfolding extends_with_def using assms by (simp_all del: book_fill_simps(2))

lemma extends_mono:
  "extends_with G st st' \<Longrightarrow> (\<And>f. G f \<Longrightarrow> H f) \<Longrightarrow> extends_with H st st'"
  unfolding extends_with_def by blast

lemma extends_all:
  "extends_with G st st' \<Longrightarrow> \<forall>f\<in>set (fills st). G f \<Longrightarrow> \<forall>f\<in>set (fills st'). G f"
  unfolding extends_with_def by auto

lemma exit_leg_extends:
  "extends_with (\<lambda>f. symbol f = s \<and> date f = nd \<and> price f = exec_price bt (side f) px)
     st (state_of (exit_leg bt dt nd s px c st))"
  by (cases rule: exit_leg_cases [of bt dt nd s px c st])
     (simp_all add: extends_book_fill del: book_fill_simps)

lemma entry_leg_extends:
  "extends_with (\<lambda>f. symbol f = s \<and> date f = nd \<and> price f = exec_price bt (side f) px)
     st (state_of (entry_leg bt dt nd s px t st))"
  by (cases rule: entry_leg_cases [of bt dt nd s px t st])
     (simp_all add: extends_book_fill del: book_fill_simps, simp add: extends_with_def)

lemma process_symbol_extends:
  "extends_with
     (\<lambda>f. symbol f = s \<and> date f = nd \<and> target_of bt (signal_at bt dt s) \<noteq> prev_target st s \<and>
          (\<exists>df. map_of (data bt) s = Some df \<and> price f = exec_price bt (side f) (Open df nd)))
     st (state_of (process_symbol bt dt nd s st))" (is "extends_with ?G st _")
proof (cases "target_of bt (signal_at bt dt s) = prev_target st s")
  case True
  then show ?thesis by (simp add: process_symbol_unchanged)
next
  case False
  show ?thesis
  proof (rule process_symbol_invariant [where P = "extends_with ?G st"])
    show "extends_with ?G st st" by simp
  next
    fix df c assume df: "map_of (data bt) s = Some df"
    show "extends_with ?G st (state_of (exit_leg bt dt nd s (Open df nd) c st))"
      by (rule extends_mono [OF exit_leg_extends]) (use df False in auto)
  next
    fix df t st1 assume df: "map_of (data bt) s = Some df" and st1: "extends_with ?G st st1"
    have "extends_with ?G st1 (state_of (entry_leg bt dt nd s (Open df nd) t st1))"
      by (rule extends_mono [OF entry_leg_extends]) (use df False in auto)
    then show "extends_with ?G st (state_of (entry_leg bt dt nd s (Open df nd) t st1))"
      using st1 extends_trans by blast
  next
    fix st1 t assume "extends_with ?G st st1"
    then show "extends_with ?G st (st1\<lparr>prev_target := (prev_target st1)(s := t)\<rparr>)"
      by (simp add: extends_with_def)
  qed
qed

lemma process_symbols_timely:
  assumes "i + 1 < length (calendar bt)"
    and "\<forall>f\<in>set (fills st). timely bt f"
    and "\<forall>s\<in>D. prev_target st s = day_target bt i s"
    and "\<forall>s\<in>set ss. s \<notin> D \<longrightarrow> prev_target st s = recorded_target bt i s"
  shows "(\<forall>f\<in>set (fills (state_of
            (process_symbols bt (calendar bt ! i) (calendar bt ! (i + 1)) ss st))). timely bt f)
       \<and> (\<forall>st'. process_symbols bt (calendar bt ! i) (calendar bt ! (i + 1)) ss st = Ok st' \<longrightarrow>
            (\<forall>s\<in>D \<union> set ss. prev_target st' s = day_target bt i s))"
  using assms(2-4)
proof (induction ss arbitrary: st D)
  case Nil
  then show ?case by simp
next
  case (Cons s ss)
  let ?dt = "calendar bt ! i" and ?nd = "calendar bt ! (i + 1)"
  let ?r = "process_symbol bt ?dt ?nd s st"
  have tg: "target_of bt (signal_at bt ?dt s) = day_target bt i s"
    by (simp add: day_target_def)
  have "extends_with (timely bt) st (state_of ?r)"
  proof (rule extends_mono [OF process_symbol_extends])
    fix f :: Fill
    assume f: "symbol f = s \<and> date f = ?nd \<and>
       target_of bt (signal_at bt ?dt s) \<noteq> prev_target st s \<and>
       (\<exists>df. map_of (data bt) s = Some df \<and> price f = exec_price bt (side f) (Open df ?nd))"
    then have "s \<notin> D" using Cons.prems(2) tg by auto
    then have "prev_target st s = recorded_target bt i s" using Cons.prems(3) by simp
    then have "day_target bt i (symbol f) \<noteq> recorded_target bt i (symbol f)"
      using f tg by simp
    then show "timely bt f" using f assms(1) unfolding timely_def by blast
  qed
  then have fl: "\<forall>f\<in>set (fills (state_of ?r)). timely bt f"
    using extends_all Cons.prems(1) by blast
  show ?case
  proof (cases ?r)
    case (Raised e st1)
    then show ?thesis using fl by simp
  next
    case (Ok st1)
    have p: "prev_target st1 = (prev_target st)(s := day_target bt i s)"
      using process_symbol_prev [OF Ok] tg by simp
    have a: "\<forall>f\<in>set (fills st1). timely bt f" using fl Ok by simp
    have b: "\<forall>s'\<in>insert s D. prev_target st1 s' = day_target bt i s'"
      using p Cons.prems(2) by simp
    have c: "\<forall>s'\<in>set ss. s' \<notin> insert s D \<longrightarrow> prev_target st1 s' = recorded_target bt i s'"
      using p Cons.prems(3) by simp
    show ?thesis using Cons.IH [OF a b c] Ok by simp
  qed
qed

lemma process_day_timely:
  assumes "i + 1 < length (calendar bt)"
    and "\<forall>f\<in>set (fills st). timely bt f"
    and "\<forall>s\<in>set (columns (strategy bt (data bt))). prev_target st s = recorded_target bt i s"
  shows "(\<forall>f\<in>set (fills (state_of (process_day bt i st))). timely bt f)
       \<and> (\<forall>st'. process_day bt i st = Ok st' \<longrightarrow>
            (\<forall>s\<in>set (columns (strategy bt (data bt))).
                prev_target st' s = recorded_target bt (Suc i) s))"
proof -
  let ?r = "process_symbols bt (calendar bt ! i) (calendar bt ! (i + 1))
              (columns (strategy bt (data bt))) st"
  have "(\<forall>f\<in>set (fills (state_of ?r)). timely bt f)
       \<and> (\<forall>st'. ?r = Ok st' \<longrightarrow>
            (\<forall>s\<in>{} \<union> set (columns (strategy bt (data bt))). prev_target st' s = day_target bt i s))"
    by (rule process_symbols_timely [OF assms(1,2)]) (use assms(3) in simp_all)
  then show ?thesis
    by (cases ?r) (simp_all add: process_day_def Let_def recorded_target_def)
qed

lemma run_days_append:
  "run_days bt (xs @ ys) st =
     (case run_days bt xs st of Raised e st1 \<Rightarrow> Raised e st1 | Ok st1 \<Rightarrow> run_days bt ys st1)"
  by (induction xs arbitrary: st) (simp_all split: outcome.splits)

lemma run_prefix_Suc:
  "run_prefix bt st0 (Suc k) =
     (case run_prefix bt st0 k of Raised e st1 \<Rightarrow> Raised e st1 | Ok st1 \<Rightarrow> process_day bt k st1)"
  by (simp add: run_prefix_def run_days_append split: outcome.splits)

lemma run_prefix_timely:
  assumes "k \<le> length (calendar bt) - 1" and "\<forall>f\<in>set (fills st0). timely bt f"
  shows "(\<forall>f\<in>set (fills (state_of (run_prefix bt st0 k))). timely bt f)
       \<and> (\<forall>st'. run_prefix bt st0 k = Ok st' \<longrightarrow>
            (\<forall>s\<in>set (columns (strategy bt (data bt))).
                prev_target st' s = recorded_target bt k s))"
  using assms(1)
proof (induction k)
  case 0
  then show ?case using assms(2) by (simp add: run_prefix_def recorded_target_def)
next
  case (Suc k)
  then have IH: "\<forall>f\<in>set (fills (state_of (run_prefix bt st0 k))). timely bt f"
    "\<forall>st'. run_prefix bt st0 k = Ok st' \<longrightarrow>
            (\<forall>s\<in>set (columns (strategy bt (data bt))).
                prev_target st' s = recorded_target bt k s)"
    by simp_all
  show ?case
  proof (cases "run_prefix bt st0 k")
    case (Raised e st1)
    then show ?thesis using IH(1) by (simp add: run_prefix_Suc)
  next
    case (Ok st1)
    have "k + 1 < length (calendar bt)" using Suc.prems by linarith
    then show ?thesis
      using process_day_timely [of k bt st1] IH Ok by (simp add: run_prefix_Suc)
  qed
qed

lemma run_fills:
  "fills (state_of (run bt st)) =
   fills (state_of (run_prefix bt st (length (calendar bt) - 1)))"
  by (cases "run_prefix bt st (length (calendar bt) - 1)"; cases "calendar bt")
     (simp_all add: run_def run_prefix_def Let_def)

text \<open>
  C3. Every fill of a run of a new Backtester is dated on the calendar date \<open>i + 1\<close> that
  follows a date \<open>i\<close> on which the processed target of its symbol differs from the target
  recorded before (0 on the first date, the processed target of date \<open>i - 1\<close> otherwise),
  and its price is the Open of its symbol on date \<open>i + 1\<close>, times \<open>1 + slippage_rate\<close> for
  a BUY and \<open>1 - slippage_rate\<close> for a SELL.
\<close>

theorem no_lookahead:
  "\<forall>f\<in>set (fills (state_of (run bt (new_state c)))).
     \<exists>i df. i + 1 < length (calendar bt) \<and> date f = calendar bt ! (i + 1) \<and>
       target_of bt (signal_at bt (calendar bt ! i) (symbol f)) \<noteq>
         (if i = 0 then 0 else target_of bt (signal_at bt (calendar bt ! (i - 1)) (symbol f))) \<and>
       map_of (data bt) (symbol f) = Some df \<and>
       price f = (if side f = BUY
                  then Open df (calendar bt ! (i + 1)) * (1 + slippage_rate (costs bt))
                  else Open df (calendar bt ! (i + 1)) * (1 - slippage_rate (costs bt)))"
proof -
  have "\<forall>f\<in>set (fills (new_state c)). timely bt f" by (simp add: new_state_def)
  then have "\<forall>f\<in>set (fills (state_of (run bt (new_state c)))). timely bt f"
    using run_prefix_timely [of "length (calendar bt) - 1" bt "new_state c"]
    by (simp add: run_fills)
  then show ?thesis
    unfolding timely_def day_target_def recorded_target_def exec_price_def by simp
qed

theorem no_lookahead_witness:
  "map (\<lambda>f. (date f, side f, price f)) (fills (state_of (run ex_cover_bt (new_state 100))))
     = [(1, SELL, 10), (2, BUY, 1000)]
   \<and> list_all (\<lambda>f. \<exists>i df. i + 1 < length (calendar ex_cover_bt) \<and>
         date f = calendar ex_cover_bt ! (i + 1) \<and>
         target_of ex_cover_bt (signal_at ex_cover_bt (calendar ex_cover_bt ! i) (symbol f)) \<noteq>
           (if i = 0 then 0
            else target_of ex_cover_bt
                   (signal_at ex_cover_bt (calendar ex_cover_bt ! (i - 1)) (symbol f))) \<and>
         map_of (data ex_cover_bt) (symbol f) = Some df \<and>
         price f = (if side f = BUY
                    then Open df (calendar ex_cover_bt ! (i + 1))
                           * (1 + slippage_rate (costs ex_cover_bt))
                    else Open df (calendar ex_cover_bt ! (i + 1))
                           * (1 - slippage_rate (costs ex_cover_bt))))
       (fills (state_of (run ex_cover_bt (new_state 100))))"
proof -
  have "map (\<lambda>f. (date f, side f, price f)) (fills (state_of (run ex_cover_bt (new_state 100))))
     = [(1, SELL, 10), (2, BUY, 1000)]"
    by (simp add: ex_cover_bt_def ex_frame_spike_def ex_short_then_flat_def
          ex_no_costs_def engine_defs Let_def upt_conv_Cons)
  then show ?thesis
    using no_lookahead [of ex_cover_bt 100] unfolding list_all_iff by blast
qed

section \<open>Trade churn suppression\<close>

lemma process_symbol_other_fills:
  assumes "s' \<noteq> s"
  shows "filter (\<lambda>f. symbol f = s') (fills (state_of (process_symbol bt dt nd s st)))
       = filter (\<lambda>f. symbol f = s') (fills st)"
proof -
  obtain new where n: "fills (state_of (process_symbol bt dt nd s st)) = fills st @ new"
    "\<forall>f\<in>set new. symbol f = s"
    using process_symbol_extends [of s nd bt dt st] unfolding extends_with_def by blast
  have "filter (\<lambda>f. symbol f = s') new = []" using n(2) assms by (auto simp: filter_empty_conv)
  then show ?thesis using n(1) by simp
qed

lemma process_symbols_quiet:
  assumes "target_of bt (signal_at bt dt s') = prev_target st s'"
  shows "filter (\<lambda>f. symbol f = s') (fills (state_of (process_symbols bt dt nd ss st)))
           = filter (\<lambda>f. symbol f = s') (fills st)
       \<and> prev_target (state_of (process_symbols bt dt nd ss st)) s' = prev_target st s'"
  using assms
proof (induction ss arbitrary: st)
  case Nil
  then show ?case by simp
next
  case (Cons s ss)
  let ?r = "process_symbol bt dt nd s st"
  have a: "filter (\<lambda>f. symbol f = s') (fills (state_of ?r)) = filter (\<lambda>f. symbol f = s') (fills st)
         \<and> prev_target (state_of ?r) s' = prev_target st s'"
  proof (cases "s = s'")
    case True
    then show ?thesis using Cons.prems by (simp add: process_symbol_unchanged)
  next
    case False
    then show ?thesis
      using process_symbol_other_fills [of s' s] process_symbol_prev_other [of s' s] by simp
  qed
  show ?case
  proof (cases ?r)
    case (Raised e st1)
    then show ?thesis using a by simp
  next
    case (Ok st1)
    then have "target_of bt (signal_at bt dt s') = prev_target st1 s'"
      using a Cons.prems by simp
    then show ?thesis using Cons.IH [of st1] a Ok by simp
  qed
qed

lemma process_day_quiet:
  assumes "target_of bt (signal_at bt (calendar bt ! i) s) = prev_target st s"
  shows "filter (\<lambda>f. symbol f = s) (fills (state_of (process_day bt i st)))
           = filter (\<lambda>f. symbol f = s) (fills st)"
  using process_symbols_quiet [OF assms, of "calendar bt ! (i + 1)" "columns (strategy bt (data bt))"]
  by (cases "process_symbols bt (calendar bt ! i) (calendar bt ! (i + 1))
              (columns (strategy bt (data bt))) st")
     (simp_all add: process_day_def Let_def)

text \<open>
  C6. Take dates \<open>a, ..., a + n - 1\<close> of the loop over the dates. If on each of them the
  processed target of a symbol equals the target recorded for it when that date starts,
  the fills of that symbol after date \<open>a + n - 1\<close> are those before date \<open>a\<close>: no fill of
  the symbol is recorded in the span. The recorded target starts at 0.
\<close>

theorem churn_suppression:
  assumes "a + n \<le> length (calendar bt) - 1"
    and "\<forall>i. a \<le> i \<and> i < a + n \<longrightarrow>
           target_of bt (signal_at bt (calendar bt ! i) s)
             = prev_target (state_of (run_prefix bt st0 i)) s"
  shows "filter (\<lambda>f. symbol f = s) (fills (state_of (run_prefix bt st0 (a + n))))
           = filter (\<lambda>f. symbol f = s) (fills (state_of (run_prefix bt st0 a)))
       \<and> prev_target (state_of (run_prefix bt st0 0)) s = 0"
proof -
  have "filter (\<lambda>f. symbol f = s) (fills (state_of (run_prefix bt st0 (a + n))))
           = filter (\<lambda>f. symbol f = s) (fills (state_of (run_prefix bt st0 a)))"
    using assms(2)
  proof (induction n)
    case 0
    then show ?case by simp
  next
    case (Suc n)
    then have IH: "filter (\<lambda>f. symbol f = s) (fills (state_of (run_prefix bt st0 (a + n))))
           = filter (\<lambda>f. symbol f = s) (fills (state_of (run_prefix bt st0 a)))"
      by simp
    have t: "target_of bt (signal_at bt (calendar bt ! (a + n)) s)
             = prev_target (state_of (run_prefix bt st0 (a + n))) s"
      using Suc.prems by simp
    show ?case
    proof (cases "run_prefix bt st0 (a + n)")
      case (Raised e st1)
      then show ?thesis using IH by (simp add: run_prefix_Suc)
    next
      case (Ok st1)
      then show ?thesis using IH t process_day_quiet [of bt "a + n" s st1]
        by (simp add: run_prefix_Suc)
    qed
  qed
  then show ?thesis by (simp add: run_prefix_def)
qed

theorem churn_suppression_witness:
  "map (\<lambda>f. (date f, side f, qty f))
     (filter (\<lambda>f. symbol f = ''A'') (fills (state_of (run_prefix ex_steady_bt (new_state 100) 1))))
     = [(1, BUY, 9)]
   \<and> filter (\<lambda>f. symbol f = ''A'') (fills (state_of (run_prefix ex_steady_bt (new_state 100) (1 + 2))))
     = filter (\<lambda>f. symbol f = ''A'') (fills (state_of (run_prefix ex_steady_bt (new_state 100) 1)))"
proof -
  note ev = ex_steady_bt_def ex_frame_flat_def ex_always_long_def ex_no_costs_def
    run_prefix_def engine_defs Let_def upt_conv_Cons
  have b: "1 + 2 \<le> length (calendar ex_steady_bt) - 1" by (simp add: ex_steady_bt_def)
  have p1: "prev_target (state_of (run_prefix ex_steady_bt (new_state 100) 1)) ''A'' = 1"
    by (simp add: ev)
  have p2: "prev_target (state_of (run_prefix ex_steady_bt (new_state 100) 2)) ''A'' = 1"
    by (simp add: ev)
  have t: "target_of ex_steady_bt (signal_at ex_steady_bt d ''A'') = 1" for d
    by (simp add: ev)
  have h: "\<forall>i. 1 \<le> i \<and> i < 1 + 2 \<longrightarrow>
           target_of ex_steady_bt (signal_at ex_steady_bt (calendar ex_steady_bt ! i) ''A'')
             = prev_target (state_of (run_prefix ex_steady_bt (new_state 100) i)) ''A''"
  proof (intro allI impI)
    fix i :: nat assume "1 \<le> i \<and> i < 1 + 2"
    then have "i = 1 \<or> i = 2" by auto
    then show "target_of ex_steady_bt (signal_at ex_steady_bt (calendar ex_steady_bt ! i) ''A'')
             = prev_target (state_of (run_prefix ex_steady_bt (new_state 100) i)) ''A''"
      using p1 p2 t by auto
  qed
  have f: "map (\<lambda>f. (date f, side f, qty f))
     (filter (\<lambda>f. symbol f = ''A'') (fills (state_of (run_prefix ex_steady_bt (new_state 100) 1))))
     = [(1, BUY, 9)]"
    by (simp add: ev)
  show ?thesis using churn_suppression [OF b h] f by blast
qed

section \<open>Long-only runs\<close>

lemma held_append [simp]:
  "held (fs @ [f]) s = held fs s + (if symbol f = s then (if side f = BUY then qty f else - qty f) else 0)"
  by (simp add: held_def)

lemma held_Nil [simp]: "held [] s = 0"
  by (simp add: held_def)

lemma ledger_long_only_snoc:
  assumes "ledger_long_only fs"
    and "\<forall>s. 0 \<le> held (fs @ [f]) s"
    and "side f = SELL \<longrightarrow> 0 < qty f \<and> qty f = held fs (symbol f)"
  shows "ledger_long_only (fs @ [f])"
  unfolding ledger_long_only_def
proof (intro conjI allI impI)
  fix k s assume "k \<le> length (fs @ [f])"
  then consider "k \<le> length fs" | "k = length (fs @ [f])" by fastforce
  then show "0 \<le> held (take k (fs @ [f])) s"
  proof cases
    case 1
    then show ?thesis using assms(1) by (simp add: ledger_long_only_def)
  next
    case 2
    then show ?thesis using assms(2) by simp
  qed
next
  fix k assume k: "k < length (fs @ [f])" and s: "side ((fs @ [f]) ! k) = SELL"
  show "0 < qty ((fs @ [f]) ! k)"
    using k s assms(1,3) by (cases "k < length fs") (auto simp: ledger_long_only_def nth_append)
  show "qty ((fs @ [f]) ! k) = held (take k (fs @ [f])) (symbol ((fs @ [f]) ! k))"
  proof (cases "k < length fs")
    case True
    then show ?thesis using s assms(1) by (simp add: ledger_long_only_def nth_append)
  next
    case False
    then have "k = length fs" using k by simp
    then show ?thesis using s assms(3) by simp
  qed
qed

lemma long_only_state_nonneg: "long_only_state st \<Longrightarrow> 0 \<le> positions st s"
  unfolding long_only_state_def ledger_long_only_def
  by (metis order_refl take_all)

lemma book_fill_snoc:
  "\<exists>f. fills (book_fill bt dt nd s sd q px np st) = fills st @ [f] \<and> symbol f = s \<and>
       side f = sd \<and> qty f = q"
  by simp

lemma long_only_book_fill:
  assumes "long_only_state st"
    and "np = positions st s + (if sd = BUY then q else - q)"
    and "0 \<le> np"
    and "sd = SELL \<longrightarrow> 0 < q \<and> q = positions st s"
  shows "long_only_state (book_fill bt dt nd s sd q px np st)"
proof -
  let ?st' = "book_fill bt dt nd s sd q px np st"
  obtain f where f: "fills ?st' = fills st @ [f]" "symbol f = s" "side f = sd" "qty f = q"
    using book_fill_snoc by blast
  have h: "\<forall>s'. positions st s' = held (fills st) s'"
    using assms(1) by (simp add: long_only_state_def)
  have p: "positions ?st' s' = held (fills st @ [f]) s'" for s'
    using assms(2) f(2-4) h by (simp del: book_fill_simps(1,2))
  have "0 \<le> positions ?st' s'" for s'
    using assms(3) long_only_state_nonneg [OF assms(1)] by (simp del: book_fill_simps(1,2))
  then have n: "\<forall>s'. 0 \<le> held (fills st @ [f]) s'" using p by metis
  have "side f = SELL \<longrightarrow> 0 < qty f \<and> qty f = held (fills st) (symbol f)"
    using assms(4) f(2-4) h by metis
  moreover have "ledger_long_only (fills st)"
    using assms(1) by (simp add: long_only_state_def)
  ultimately have "ledger_long_only (fills st @ [f])"
    using ledger_long_only_snoc [OF _ n] by blast
  then show ?thesis using p unfolding long_only_state_def f(1) by simp
qed

lemma long_only_state_prev [simp]:
  "long_only_state (st\<lparr>prev_target := p\<rparr>) = long_only_state st"
  and long_only_state_curve [simp]:
  "long_only_state (st\<lparr>equity_curve := c\<rparr>) = long_only_state st"
  by (simp_all add: long_only_state_def)

lemma exit_leg_long_only:
  assumes "long_only_state st" "positions st s \<noteq> 0"
  shows "long_only_state (state_of (exit_leg bt dt nd s px (positions st s) st))"
proof -
  have pos: "0 < positions st s" using assms long_only_state_nonneg [OF assms(1), of s] by simp
  show ?thesis
  proof (cases rule: exit_leg_cases [of bt dt nd s px "positions st s" st])
    case (Raised e)
    then show ?thesis using assms(1) by simp
  next
    case Sell
    show ?thesis unfolding Sell(2) state_of.simps
      by (rule long_only_book_fill [OF assms(1)]) (use pos in simp_all)
  next
    case (Buy q)
    then show ?thesis using pos by simp
  qed
qed

lemma entry_leg_long_only:
  assumes "long_only_state st" "positions st s = 0" "0 < t"
  shows "long_only_state (state_of (entry_leg bt dt nd s px t st))"
proof (cases rule: entry_leg_cases [of bt dt nd s px t st])
  case (Raised e)
  then show ?thesis using assms(1) by simp
next
  case Skip
  then show ?thesis using assms(1) by simp
next
  case (Buy q)
  have "long_only_state (book_fill bt dt nd s BUY q (exec_price bt BUY px) q st)"
    by (rule long_only_book_fill [OF assms(1)]) (use assms(2) Buy(5) in simp_all)
  then show ?thesis unfolding Buy(6) by simp
next
  case (Sell q)
  then show ?thesis using assms(3) by simp
qed

lemma target_of_long_only:
  "\<not> allow_shorts bt \<Longrightarrow> target_of bt r = 0 \<or> target_of bt r = 1"
  by (simp add: target_of_def)

lemma process_symbol_long_only:
  assumes "\<not> allow_shorts bt" "long_only_state st"
  shows "long_only_state (state_of (process_symbol bt dt nd s st))"
proof (cases "target_of bt (signal_at bt dt s) = prev_target st s")
  case True
  then show ?thesis using assms(2) by (simp add: process_symbol_unchanged)
next
  case False
  show ?thesis
  proof (cases "map_of (data bt) s")
    case None
    then show ?thesis using assms(2) False by (simp add: process_symbol_def Let_def)
  next
    case (Some df)
    let ?tg = "target_of bt (signal_at bt dt s)"
    have tg: "?tg = 0 \<or> ?tg = 1" using target_of_long_only [OF assms(1)] .
    let ?x = "exit_leg bt dt nd s (Open df nd) (positions st s) st"
    have x: "positions st s \<noteq> 0 \<Longrightarrow> long_only_state (state_of ?x)"
      using exit_leg_long_only [OF assms(2)] .
    have e: "long_only_state st1 \<Longrightarrow> ?tg \<noteq> 0 \<Longrightarrow> positions st1 s = 0 \<Longrightarrow>
        long_only_state (state_of (entry_leg bt dt nd s (Open df nd) ?tg st1))" for st1
      using entry_leg_long_only [of st1 s ?tg] tg by auto
    define r where "r = (if positions st s \<noteq> 0 \<and>
               (?tg = 0 \<or> (?tg > 0 \<and> 0 > positions st s) \<or> (?tg < 0 \<and> 0 < positions st s))
            then ?x else Ok st)"
    have lr: "long_only_state (state_of r)" using x assms(2) by (simp add: r_def)
    have ps: "process_symbol bt dt nd s st =
        (case r of Raised e st1 \<Rightarrow> Raised e st1
         | Ok st1 \<Rightarrow>
            if ?tg \<noteq> 0 \<and> positions st1 s = 0
            then entry_leg bt dt nd s (Open df nd) ?tg st1
            else Ok (st1\<lparr>prev_target := (prev_target st1)(s := ?tg)\<rparr>))"
      unfolding process_symbol_unfold [OF Some False] r_def by (rule refl)
    show ?thesis
    proof (cases r)
      case (Ok st1)
      then show ?thesis using lr e [of st1] unfolding ps by simp
    next
      case (Raised err st1)
      then show ?thesis using lr unfolding ps by simp
    qed
  qed
qed

lemma run_long_only:
  assumes "\<not> allow_shorts bt" "long_only_state st"
  shows "long_only_state (state_of (run bt st))"
proof (rule run_invariant [where P = long_only_state])
  show "long_only_state (st\<lparr>prev_target := (\<lambda>_. 0), equity_curve := []\<rparr>)"
    using assms(2) by simp
next
  fix i st assume "long_only_state st"
  then show "long_only_state (state_of (process_day bt i st))"
    using process_day_invariant [where P = long_only_state]
      process_symbol_long_only [OF assms(1)] by simp
next
  fix st c assume "long_only_state st"
  then show "long_only_state (st\<lparr>equity_curve := c\<rparr>)" by simp
qed

lemma run_prefix_long_only:
  assumes "\<not> allow_shorts bt" "long_only_state st"
  shows "long_only_state (state_of (run_prefix bt st k))"
  unfolding run_prefix_def
proof (rule run_days_invariant [where P = long_only_state])
  show "long_only_state (st\<lparr>prev_target := (\<lambda>_. 0), equity_curve := []\<rparr>)"
    using assms(2) by simp
next
  fix i st assume "long_only_state st"
  then show "long_only_state (state_of (process_day bt i st))"
    using process_day_invariant [where P = long_only_state]
      process_symbol_long_only [OF assms(1)] by simp
qed

lemma long_only_new_state: "long_only_state (new_state c)"
  by (simp add: long_only_state_def ledger_long_only_def new_state_def)

text \<open>
  C5. With \<open>allow_shorts = False\<close> a raw signal of -1 is the target 0; in a run of a new
  Backtester no position is negative after any number of iterations of the date loop nor
  at the end; the positions are what the fills add up to, no prefix of the fill list holds
  a symbol short, and every SELL fill sells exactly the shares held in its symbol by the
  fills before it, a positive number.
\<close>

theorem long_only_guarantee:
  assumes "\<not> allow_shorts bt"
  shows "target_of bt (- 1) = 0
    \<and> (\<forall>k s. 0 \<le> positions (state_of (run_prefix bt (new_state c) k)) s)
    \<and> (\<forall>s. 0 \<le> positions (state_of (run bt (new_state c))) s)
    \<and> (\<forall>s. positions (state_of (run bt (new_state c))) s
             = held (fills (state_of (run bt (new_state c)))) s)
    \<and> (\<forall>k\<le>length (fills (state_of (run bt (new_state c)))). \<forall>s.
          0 \<le> held (take k (fills (state_of (run bt (new_state c))))) s)
    \<and> (\<forall>k<length (fills (state_of (run bt (new_state c)))).
          side (fills (state_of (run bt (new_state c))) ! k) = SELL \<longrightarrow>
            0 < qty (fills (state_of (run bt (new_state c))) ! k) \<and>
            qty (fills (state_of (run bt (new_state c))) ! k)
              = held (take k (fills (state_of (run bt (new_state c)))))
                  (symbol (fills (state_of (run bt (new_state c))) ! k)))"
proof -
  have t: "target_of bt (- 1) = 0" using assms by (simp add: target_of_def)
  have p: "\<forall>k s. 0 \<le> positions (state_of (run_prefix bt (new_state c) k)) s"
    using run_prefix_long_only [OF assms long_only_new_state] long_only_state_nonneg by blast
  have r: "long_only_state (state_of (run bt (new_state c)))"
    using run_long_only [OF assms long_only_new_state] .
  have n: "\<forall>s. 0 \<le> positions (state_of (run bt (new_state c))) s"
    using r long_only_state_nonneg by blast
  show ?thesis
    using t p n r unfolding long_only_state_def ledger_long_only_def by blast
qed

theorem long_only_guarantee_witness:
  "\<not> allow_shorts ex_round_trip_bt
   \<and> map (\<lambda>f. (date f, side f, qty f)) (fills (state_of (run ex_round_trip_bt (new_state 100))))
       = [(1, BUY, 9), (2, SELL, 9)]
   \<and> positions (state_of (run ex_round_trip_bt (new_state 100))) ''A''
       = held (fills (state_of (run ex_round_trip_bt (new_state 100)))) ''A''
   \<and> ledger_long_only (fills (state_of (run ex_round_trip_bt (new_state 100))))"
proof -
  have a: "\<not> allow_shorts ex_round_trip_bt" by (simp add: ex_round_trip_bt_def)
  have f: "map (\<lambda>f. (date f, side f, qty f))
      (fills (state_of (run ex_round_trip_bt (new_state 100)))) = [(1, BUY, 9), (2, SELL, 9)]"
    by (simp add: ex_round_trip_bt_def ex_frame_flat_def ex_long_then_flat_def
          ex_no_costs_def engine_defs Let_def upt_conv_Cons)
  show ?thesis
    using long_only_guarantee [OF a, of 100] a f unfolding ledger_long_only_def by blast
qed

section \<open>Reconstruction of a flip\<close>

lemmas reconstruct_defs =
  round_trip_trades_def reconstruct_def sorted_rows_def row_of_def row_step_def
  cover_short_def exit_long_def
  close_trade_def add_long_entry_def add_long_exit_def add_short_entry_def
  add_short_exit_def fresh_state_def

text \<open>
  C4. For one symbol, a BUY of 100 at 10 followed (not earlier in date) by a SELL of 150
  at 12, both without commission, reconstruct to exactly one Trade: LONG, quantity 100,
  entry amount 1000, exit amount 1200, P&L 200. The symbol is left short 50 shares in an
  open SHORT entry that is not in the returned list.
\<close>

theorem flip_reconstruction:
  assumes "d0 \<le> d1"
  shows "round_trip_trades
           [\<lparr>date = d0, symbol = sm, side = BUY, qty = 100, price = 10, commission = 0,
             cash_after = c0, equity_after = e0\<rparr>,
            \<lparr>date = d1, symbol = sm, side = SELL, qty = 150, price = 12, commission = 0,
             cash_after = c1, equity_after = e1\<rparr>]
         = Inr [\<lparr>t_symbol = sm, entry_date = d0, exit_date = d1, t_side = LONG, t_qty = 100,
                 entry_amount = 1000, exit_amount = 1200, pnl = 200,
                 duration_days = max 1 (d1 - d0)\<rparr>]
       \<and> (\<exists>state trades.
            reconstruct
              [\<lparr>date = d0, symbol = sm, side = BUY, qty = 100, price = 10, commission = 0,
                cash_after = c0, equity_after = e0\<rparr>,
               \<lparr>date = d1, symbol = sm, side = SELL, qty = 150, price = 12, commission = 0,
                cash_after = c1, equity_after = e1\<rparr>] = Inr (state, trades)
            \<and> length trades = 1
            \<and> map_option pos (state sm) = Some (- 50)
            \<and> map_option entry_side (state sm) = Some (Some SHORT)
            \<and> map_option qty_total (state sm) = Some 50)"
  using assms by (simp add: reconstruct_defs Let_def less_eq_prod_def)

theorem flip_reconstruction_witness:
  "round_trip_trades
           [\<lparr>date = 1, symbol = ''XYZ'', side = BUY, qty = 100, price = 10, commission = 0,
             cash_after = 0, equity_after = 0\<rparr>,
            \<lparr>date = 3, symbol = ''XYZ'', side = SELL, qty = 150, price = 12, commission = 0,
             cash_after = 0, equity_after = 0\<rparr>]
         = Inr [\<lparr>t_symbol = ''XYZ'', entry_date = 1, exit_date = 3, t_side = LONG, t_qty = 100,
                 entry_amount = 1000, exit_amount = 1200, pnl = 200, duration_days = 2\<rparr>]"
proof -
  have "(1::int) \<le> 3" by simp
  from flip_reconstruction [OF this, of "''XYZ''" 0 0 0 0] show ?thesis by simp
qed

section \<open>Reconstruction: one row\<close>

lemma pos_add [simp]:
  "pos (add_long_entry d p c q y) = pos y"
  "pos (add_short_entry d p c q y) = pos y"
  "pos (add_long_exit p c q y) = pos y"
  "pos (add_short_exit p c q y) = pos y"
  by (simp_all add: add_long_entry_def add_short_entry_def add_long_exit_def add_short_exit_def)

lemma coherent_add [simp]:
  "coherent (add_long_entry d p c q y)"
  "coherent (add_short_entry d p c q y)"
  "coherent (add_long_exit p c q y) = coherent y"
  "coherent (add_short_exit p c q y) = coherent y"
  "coherent (y\<lparr>pos := v\<rparr>) = coherent y"
  by (cases "entry_side y"; cases "s_entry_date y";
      simp add: coherent_def add_long_entry_def add_short_entry_def add_long_exit_def
        add_short_exit_def)+

lemma coherent_fresh [simp]: "coherent fresh_state"
  by (simp add: coherent_def fresh_state_def)




section \<open>Reconstruction: the loop over the rows\<close>





lemma running_Nil [simp]: "running_position [] s = 0"
  and running_Cons: "running_position (r # rs) s =
     (if r_symbol r = s then (if r_side r = BUY then r_qty r else - r_qty r) else 0)
       + running_position rs s"
  and running_append: "running_position (ps @ rs) s = running_position ps s + running_position rs s"
  by (simp_all add: running_position_def)


section \<open>Reconstruction: positions that stay open\<close>



section \<open>Reconstruction is a function of the rows\<close>







section \<open>The ledger: frame of _apply_fill\<close>

lemma setdefault_present:
  "map_of (pf_positions pf) s = Some r \<Longrightarrow> setdefault h pf s = (h, pf, r)"
  by (simp add: setdefault_def)

lemma setdefault_absent:
  "map_of (pf_positions pf) s = None \<Longrightarrow>
   setdefault h pf s =
     (h @ [\<lparr>p_symbol = s, p_qty = 0, avg_cost = 0\<rparr>],
      pf\<lparr>pf_positions := pf_positions pf @ [(s, length h)]\<rparr>, length h)"
  by (simp add: setdefault_def)

lemma apply_fill_shape:
  assumes "setdefault h pf s = (h1, pf1, r)"
    and "apply_fill (h, pf) dt s sd q px comm prices_now = (h', pf')"
  shows "length h' = length h1" and "\<forall>r'. r' \<noteq> r \<longrightarrow> h' ! r' = h1 ! r'"
    and "r < length h1 \<longrightarrow> p_symbol (h' ! r) = p_symbol (h1 ! r)"
    and "pf_positions pf' = pf_positions pf1"
    and "pf_cash pf' = (if sd = BUY then pf_cash pf1 - (of_int q * px + comm)
                        else pf_cash pf1 + (of_int q * px - comm))"
    and "pf_fills pf' = pf_fills pf1 @ [last (pf_fills pf')]"
    and "date (last (pf_fills pf')) = dt \<and> symbol (last (pf_fills pf')) = s \<and>
         side (last (pf_fills pf')) = sd \<and> qty (last (pf_fills pf')) = q \<and>
         price (last (pf_fills pf')) = px \<and> commission (last (pf_fills pf')) = comm \<and>
         cash_after (last (pf_fills pf')) = pf_cash pf'"
  using assms by (cases "sd = BUY"; auto simp: apply_fill_def Let_def)+

lemma apply_fill_objects:
  assumes "apply_fill (h, pf) dt s sd q px comm prices_now = (h', pf')"
  shows "\<exists>r. map_of (pf_positions pf') s = Some r \<and> length h \<le> length h'
           \<and> (\<forall>r'<length h. r' \<noteq> r \<longrightarrow> h' ! r' = h ! r')
           \<and> (\<forall>s'. s' \<noteq> s \<longrightarrow> map_of (pf_positions pf') s' = map_of (pf_positions pf) s')
           \<and> (own_positions h pf \<longrightarrow> own_positions h' pf')"
proof (cases "map_of (pf_positions pf) s")
  case None
  note sh = apply_fill_shape [OF setdefault_absent [OF None] assms]
  have m: "map_of (pf_positions pf') s = Some (length h)"
    "\<forall>s'. s' \<noteq> s \<longrightarrow> map_of (pf_positions pf') s' = map_of (pf_positions pf) s'"
    using sh(4) None by (simp_all add: map_add_def split: option.splits)
  have l: "length h \<le> length h'" using sh(1) by simp
  have f: "\<forall>r'<length h. r' \<noteq> length h \<longrightarrow> h' ! r' = h ! r'"
    using sh(2) by (simp add: nth_append)
  have n: "p_symbol (h' ! length h) = s" using sh(3) by simp
  have o: "own_positions h pf \<longrightarrow> own_positions h' pf'"
    unfolding own_positions_def
  proof (intro impI allI)
    fix k r assume w: "\<forall>k r. map_of (pf_positions pf) k = Some r \<longrightarrow>
                          r < length h \<and> p_symbol (h ! r) = k"
      and kr: "map_of (pf_positions pf') k = Some r"
    show "r < length h' \<and> p_symbol (h' ! r) = k"
    proof (cases "k = s")
      case True
      then show ?thesis using kr m(1) n sh(1) by simp
    next
      case False
      then have "map_of (pf_positions pf) k = Some r" using kr m(2) by simp
      then have "r < length h \<and> p_symbol (h ! r) = k" using w by blast
      then show ?thesis using f l by auto
    qed
  qed
  show ?thesis using m l f o by blast
next
  case (Some r)
  note sh = apply_fill_shape [OF setdefault_present [OF Some] assms]
  have o: "own_positions h pf \<longrightarrow> own_positions h' pf'"
    unfolding own_positions_def
  proof (intro impI allI)
    fix k r' assume w: "\<forall>k r. map_of (pf_positions pf) k = Some r \<longrightarrow>
                          r < length h \<and> p_symbol (h ! r) = k"
      and kr: "map_of (pf_positions pf') k = Some r'"
    then have a: "r' < length h \<and> p_symbol (h ! r') = k" using sh(4) by simp
    have b: "r < length h" using w Some by blast
    show "r' < length h' \<and> p_symbol (h' ! r') = k"
      using a b sh(1,2,3) by (cases "r' = r") auto
  qed
  show ?thesis using Some sh(1,2,4) o by auto
qed

text \<open>
  C9. One call of \<open>_apply_fill\<close> appends exactly one Fill, with the arguments of the call and
  the new cash; it changes the cash by the notional and the commission; it leaves the
  binding of every other symbol in \<open>positions\<close> as it was and changes no Position object
  but the one bound to the named symbol. So the quantity and the average cost of every
  other symbol's Position are unchanged, for a Position that is another object than the
  named symbol's; in a portfolio where every symbol holds its own Position, as the ones the
  class builds, that is the Position of every other symbol.
\<close>

theorem apply_fill_frame:
  assumes "apply_fill (h, pf) dt s sd q px comm prices_now = (h', pf')"
  shows "pf_fills pf' = pf_fills pf @ [last (pf_fills pf')]
    \<and> date (last (pf_fills pf')) = dt \<and> symbol (last (pf_fills pf')) = s
    \<and> side (last (pf_fills pf')) = sd \<and> qty (last (pf_fills pf')) = q
    \<and> price (last (pf_fills pf')) = px \<and> commission (last (pf_fills pf')) = comm
    \<and> cash_after (last (pf_fills pf')) = pf_cash pf'
    \<and> pf_cash pf' = (if sd = BUY then pf_cash pf - (of_int q * px + comm)
                      else pf_cash pf + (of_int q * px - comm))
    \<and> (\<forall>s'. s' \<noteq> s \<longrightarrow> map_of (pf_positions pf') s' = map_of (pf_positions pf) s')
    \<and> (\<forall>r'<length h. map_of (pf_positions pf') s \<noteq> Some r' \<longrightarrow> h' ! r' = h ! r')
    \<and> (\<forall>s' r'. s' \<noteq> s \<and> map_of (pf_positions pf) s' = Some r' \<and> r' < length h \<and>
                map_of (pf_positions pf') s \<noteq> Some r' \<longrightarrow>
                p_qty (h' ! r') = p_qty (h ! r') \<and> avg_cost (h' ! r') = avg_cost (h ! r'))
    \<and> (own_positions h pf \<longrightarrow>
          own_positions h' pf' \<and>
          (\<forall>s'. s' \<noteq> s \<longrightarrow> position_of h' pf' s' = position_of h pf s'))"
proof -
  obtain h1 pf1 r1 where sd: "setdefault h pf s = (h1, pf1, r1)"
    by (cases "setdefault h pf s") auto
  have c: "pf_cash pf1 = pf_cash pf" "pf_fills pf1 = pf_fills pf"
    using sd by (auto simp: setdefault_def split: option.splits)
  note sh = apply_fill_shape [OF sd assms]
  obtain r where r: "map_of (pf_positions pf') s = Some r"
    "\<forall>r'<length h. r' \<noteq> r \<longrightarrow> h' ! r' = h ! r'"
    "\<forall>s'. s' \<noteq> s \<longrightarrow> map_of (pf_positions pf') s' = map_of (pf_positions pf) s'"
    "own_positions h pf \<longrightarrow> own_positions h' pf'"
    using apply_fill_objects [OF assms] by blast
  have own: "\<forall>s'. s' \<noteq> s \<longrightarrow> position_of h' pf' s' = position_of h pf s'"
    if w: "own_positions h pf"
  proof (intro allI impI)
    fix s' assume n: "s' \<noteq> s"
    show "position_of h' pf' s' = position_of h pf s'"
    proof (cases "map_of (pf_positions pf) s'")
      case None
      then show ?thesis using r(3) n by (simp add: position_of_def)
    next
      case (Some r')
      then have a: "r' < length h" "p_symbol (h ! r') = s'"
        using w unfolding own_positions_def by blast+
      have "r' \<noteq> r"
      proof
        assume e: "r' = r"
        have "p_symbol (h' ! r) = s"
          using r(1,4) w unfolding own_positions_def by blast
        moreover have "own_positions h' pf'" using r(4) w by simp
        then have "p_symbol (h' ! r') = s'"
          using Some r(3) n unfolding own_positions_def by metis
        ultimately show False using e n by simp
      qed
      then have "h' ! r' = h ! r'" using r(2) a(1) by simp
      then show ?thesis using Some r(3) n by (simp add: position_of_def)
    qed
  qed
  have f1: "pf_fills pf' = pf_fills pf @ [last (pf_fills pf')]" using sh(6) c(2) by simp
  have f2: "pf_cash pf' = (if sd = BUY then pf_cash pf - (of_int q * px + comm)
                      else pf_cash pf + (of_int q * px - comm))"
    using sh(5) c(1) by simp
  have f3: "\<forall>r'<length h. map_of (pf_positions pf') s \<noteq> Some r' \<longrightarrow> h' ! r' = h ! r'"
    using r(1,2) by simp
  have f4: "\<forall>s' r'. s' \<noteq> s \<and> map_of (pf_positions pf) s' = Some r' \<and> r' < length h \<and>
                map_of (pf_positions pf') s \<noteq> Some r' \<longrightarrow>
                p_qty (h' ! r') = p_qty (h ! r') \<and> avg_cost (h' ! r') = avg_cost (h ! r')"
    using f3 by simp
  show ?thesis using f1 sh(7) f2 r(3) f3 f4 r(4) own by blast
qed

theorem apply_fill_frame_witness:
  "own_positions ex_store ex_portfolio
   \<and> position_of (fst (apply_fill (ex_store, ex_portfolio) 3 ''A'' BUY 5 20 1 Map.empty))
        (snd (apply_fill (ex_store, ex_portfolio) 3 ''A'' BUY 5 20 1 Map.empty)) ''A''
       = Some \<lparr>p_symbol = ''A'', p_qty = 10, avg_cost = 15\<rparr>
   \<and> position_of (fst (apply_fill (ex_store, ex_portfolio) 3 ''A'' BUY 5 20 1 Map.empty))
        (snd (apply_fill (ex_store, ex_portfolio) 3 ''A'' BUY 5 20 1 Map.empty)) ''B''
       = position_of ex_store ex_portfolio ''B''
   \<and> position_of ex_store ex_portfolio ''B'' = Some \<lparr>p_symbol = ''B'', p_qty = 7, avg_cost = 20\<rparr>
   \<and> length (pf_fills (snd (apply_fill (ex_store, ex_portfolio) 3 ''A'' BUY 5 20 1 Map.empty)))
       = 1"
proof -
  let ?R = "apply_fill (ex_store, ex_portfolio) 3 ''A'' BUY 5 20 1 Map.empty"
  have e: "?R = (fst ?R, snd ?R)" by simp
  have w: "own_positions ex_store ex_portfolio"
    by (auto simp: own_positions_def ex_store_def ex_portfolio_def split: if_splits)
  have a: "position_of (fst ?R) (snd ?R) ''A''
       = Some \<lparr>p_symbol = ''A'', p_qty = 10, avg_cost = 15\<rparr>"
    by (simp add: position_of_def apply_fill_def setdefault_def ex_store_def ex_portfolio_def
          Let_def)
  have b: "position_of ex_store ex_portfolio ''B''
       = Some \<lparr>p_symbol = ''B'', p_qty = 7, avg_cost = 20\<rparr>"
    by (simp add: position_of_def ex_store_def ex_portfolio_def)
  have n: "pf_fills ex_portfolio = []" by (simp add: ex_portfolio_def)
  have "''B'' \<noteq> ''A''" by simp
  then show ?thesis
    using apply_fill_frame [OF e] w a b n
    by (metis append_Nil length_Cons list.size(3) One_nat_def)
qed

section \<open>Sharpe ratio\<close>

lemma sharpe_short: "length eq < 2 \<Longrightarrow> sharpe eq rf = Num 0"
  by (cases eq rule: pct_change_dropna.cases) (simp_all add: sharpe_def)

lemma sharpe_single_return:
  assumes "length (pct_change_dropna eq) = 1"
  shows "sharpe eq rf = NaN"
proof -
  obtain r where r: "pct_change_dropna eq = [r]"
    using assms by (cases "pct_change_dropna eq") auto
  show ?thesis
    by (cases r) (simp_all add: sharpe_def r std_ddof1_def Let_def)
qed

text \<open>
  C7. The guard for degenerate input misses a case. The series [100, 150] has two points
  and the single daily return 1/2, exact in floats; the standard deviation with divisor
  \<open>n - 1\<close> of one value is NaN, NaN is not equal to 0, and \<open>sharpe\<close> returns NaN where the
  claim promises a number, never NaN, for degenerate input.
\<close>

theorem sharpe_two_points:
  "pct_change_dropna [100, 150] = [Fin (1 / 2)] \<and> sharpe [100, 150] 0 = NaN
   \<and> sharpe [100, 150] 0 \<noteq> Num 0"
  by (simp add: sharpe_def std_ddof1_def)

end
